theory Spec2Isabelle
  imports Complex_Main "HOL-Library.Sublist" "HOL-Library.Multiset"
begin

section \<open>Exceptions\<close>

text \<open>
  Every \<^verbatim>\<open>raise\<close> of \<^verbatim>\<open>core/transfer_manager.py\<close> becomes a value of \<open>exc\<close>.
  The constructors starting with \<open>TE_\<close> are the \<^verbatim>\<open>TransferError(...)\<close> raise sites, one
  per message; those whose message interpolates a caught exception (\<^verbatim>\<open>f"...: {e}"\<close>)
  carry it.  \<open>EnvError\<close> is any exception raised by code outside the repository
  (paramiko, the operating system), identified by its message.
\<close>

datatype exc =
    EnvError string
  | ZeroDivisionError
  | ValueError
  | TE_SizeUnavailable string
  | TE_SftpFailed exc
  | TE_VerificationFailed
  | TE_DownloadFailedAfter nat exc
  | TE_DownloadFailed
  | TE_LocalNotFound string
  | TE_UploadFailed exc
  | TE_RemoteSizeUnknown
  | TE_LocalLarger
  | TE_Cancelled
  | TE_ResumeVerificationFailed
  | TE_ResumeFailed exc

fun is_TransferError :: "exc \<Rightarrow> bool" where
  "is_TransferError (EnvError m) = False"
| "is_TransferError ZeroDivisionError = False"
| "is_TransferError ValueError = False"
| "is_TransferError e = True"

section \<open>TransferProgress\<close>

text \<open>
  \<^verbatim>\<open>class TransferProgress\<close>.  Byte counts are Python ints.  Times and the derived
  float values are modelled by the rationals they denote; rounding of IEEE doubles is
  not part of the model.  The observer \<^verbatim>\<open>callback\<close> is modelled by whether one is
  registered (\<open>has_callback\<close>) and by the log \<open>calls\<close> of its invocations: each
  invocation appends the value of \<^verbatim>\<open>transferred\<close> the observer is shown.  The
  \<^verbatim>\<open>threading.Event\<close> \<^verbatim>\<open>cancelled\<close> is its flag; the class only ever sets it.
\<close>

record TransferProgress =
  total_size :: int
  transferred :: int
  start_time :: rat
  has_callback :: bool
  cancelled :: bool
  calls :: "int list"

definition new_progress :: "int \<Rightarrow> bool \<Rightarrow> rat \<Rightarrow> TransferProgress" where
  \<comment> \<open>\<^verbatim>\<open>__init__(total_size, callback)\<close>, at clock reading \<open>now\<close>\<close>
  "new_progress tot cb now =
     \<lparr>total_size = tot, transferred = 0, start_time = now,
      has_callback = cb, cancelled = False, calls = []\<rparr>"

definition update :: "int \<Rightarrow> TransferProgress \<Rightarrow> TransferProgress" where
  "update bytes_transferred p =
     (let p1 = p\<lparr>transferred := transferred p + bytes_transferred\<rparr>
      in if has_callback p1 \<and> \<not> cancelled p1
         then p1\<lparr>calls := calls p1 @ [transferred p1]\<rparr>
         else p1)"

definition cancel :: "TransferProgress \<Rightarrow> TransferProgress" where
  "cancel p = p\<lparr>cancelled := True\<rparr>"

definition py_truediv :: "rat \<Rightarrow> rat \<Rightarrow> exc + rat" where
  \<comment> \<open>Python's \<^verbatim>\<open>/\<close>: raises on a zero divisor\<close>
  "py_truediv a b = (if b = 0 then Inl ZeroDivisionError else Inr (a / b))"

definition py_int :: "rat \<Rightarrow> int" where
  \<comment> \<open>Python's \<^verbatim>\<open>int(x)\<close> on a float: truncation towards zero\<close>
  "py_int x = (if 0 \<le> x then \<lfloor>x\<rfloor> else \<lceil>x\<rceil>)"

definition percentage :: "TransferProgress \<Rightarrow> exc + rat" where
  "percentage p =
     (if total_size p = 0 then Inr 0
      else case py_truediv (of_int (transferred p)) (of_int (total_size p)) of
             Inl e \<Rightarrow> Inl e
           | Inr q \<Rightarrow> Inr (min 100 (q * 100)))"

definition eta_seconds :: "rat \<Rightarrow> TransferProgress \<Rightarrow> exc + int option" where
  \<comment> \<open>\<open>now\<close> is the reading of \<^verbatim>\<open>time.time()\<close> inside the property\<close>
  "eta_seconds now p =
     (if transferred p = 0 then Inr None
      else let elapsed = now - start_time p
           in case py_truediv (of_int (transferred p)) elapsed of
                Inl e \<Rightarrow> Inl e
              | Inr rate \<Rightarrow>
                  (let remaining_bytes = total_size p - transferred p
                   in if rate = 0 then Inr None
                      else case py_truediv (of_int remaining_bytes) rate of
                             Inl e \<Rightarrow> Inl e
                           | Inr q \<Rightarrow> Inr (Some (py_int q))))"

text \<open>A run of \<^verbatim>\<open>update\<close> calls, one per delta, in order.\<close>

fun updates :: "int list \<Rightarrow> TransferProgress \<Rightarrow> TransferProgress" where
  "updates [] p = p"
| "updates (d # ds) p = updates ds (update d p)"

section \<open>Strings\<close>

text \<open>
  File names are Python \<^verbatim>\<open>str\<close>; they are modelled as \<open>string\<close>, one \<open>char\<close> per
  character, which is exact for ASCII names.  On such names \<^verbatim>\<open>\d\<close> is a decimal digit
  and \<^verbatim>\<open>lower()\<close> maps A-Z to a-z.
\<close>

definition is_digit :: "char \<Rightarrow> bool" where
  "is_digit c = (c \<in> set ''0123456789'')"

definition match_timestamp :: "string \<Rightarrow> string option" where
  \<comment> \<open>\<^verbatim>\<open>re.match(r'(\d{8}_\d{6})', filename)\<close> and, on a match, \<^verbatim>\<open>group(1)\<close>\<close>
  "match_timestamp s =
     (if 15 \<le> length s \<and> list_all is_digit (take 8 s) \<and> take 1 (drop 8 s) = ''_''
         \<and> list_all is_digit (take 6 (drop 9 s))
      then Some (take 15 s) else None)"

fun str_contains :: "string \<Rightarrow> string \<Rightarrow> bool" where
  \<comment> \<open>\<^verbatim>\<open>sub in s\<close>\<close>
  "str_contains sub [] = (sub = [])"
| "str_contains sub (c # cs) = (prefix sub (c # cs) \<or> str_contains sub cs)"

definition endswith :: "string \<Rightarrow> string \<Rightarrow> bool" where
  \<comment> \<open>\<^verbatim>\<open>s.endswith(suf)\<close>\<close>
  "endswith s suf = prefix (rev suf) (rev s)"

definition lower_char :: "char \<Rightarrow> char" where
  "lower_char c =
     (case map_of (zip ''ABCDEFGHIJKLMNOPQRSTUVWXYZ'' ''abcdefghijklmnopqrstuvwxyz'') c of
        Some l \<Rightarrow> l | None \<Rightarrow> c)"

definition lower :: "string \<Rightarrow> string" where
  "lower s = map lower_char s"

fun split_on :: "char \<Rightarrow> string \<Rightarrow> string list" where
  \<comment> \<open>\<^verbatim>\<open>s.split(sep)\<close> for a one-character separator\<close>
  "split_on sep [] = [[]]"
| "split_on sep (c # cs) =
     (if c = sep then [] # split_on sep cs
      else (case split_on sep cs of [] \<Rightarrow> [[c]] | p # ps \<Rightarrow> (c # p) # ps))"

definition replace_char :: "char \<Rightarrow> char \<Rightarrow> string \<Rightarrow> string" where
  "replace_char old new s = map (\<lambda>c. if c = old then new else c) s"

section \<open>BackupInfo and BackupSet\<close>

text \<open>
  The pydantic models of \<^verbatim>\<open>models/config.py\<close>.  A \<^verbatim>\<open>datetime\<close> is modelled by an
  integer (its position on the time line, in the order Python compares naive datetimes);
  \<^verbatim>\<open>size_mb\<close> is a float, modelled by the rational it denotes, so sums of sizes are
  exact in the model.
\<close>

record BackupInfo =
  filename :: string
  filepath :: string
  site_name :: string
  backup_type :: string
  created_at :: int
  size_mb :: rat
  compressed :: bool
  md5_hash :: "string option"

record BackupSet =
  timestamp :: string
  site_name :: string
  backup_type :: string
  created_at :: int
  total_size_mb :: rat
  files :: "BackupInfo list"

section \<open>Grouping into backup sets\<close>

text \<open>
  \<^verbatim>\<open>backup_groups\<close> is a dict from timestamp token to a list of records.  A Python
  dict keeps its keys in insertion order, which the loops over \<^verbatim>\<open>.items()\<close> observe, so
  it is an association list: \<open>group_add\<close> is
  \<^verbatim>\<open>if timestamp not in backup_groups: backup_groups[timestamp] = []\<close> followed by
  \<^verbatim>\<open>backup_groups[timestamp].append(backup)\<close>.
\<close>

fun group_add :: "string \<Rightarrow> 'a \<Rightarrow> (string \<times> 'a list) list \<Rightarrow> (string \<times> 'a list) list" where
  "group_add k v [] = [(k, [v])]"
| "group_add k v ((k', vs) # g) =
     (if k' = k then (k', vs @ [v]) # g else (k', vs) # group_add k v g)"

text \<open>The first loop of \<^verbatim>\<open>BackupManager.list_backup_sets\<close>.\<close>

fun group_backups ::
  "BackupInfo list \<Rightarrow> (string \<times> BackupInfo list) list \<Rightarrow> (string \<times> BackupInfo list) list" where
  "group_backups [] backup_groups = backup_groups"
| "group_backups (backup # rest) backup_groups =
     group_backups rest
       (case match_timestamp (filename backup) of
          Some ts \<Rightarrow> group_add ts backup backup_groups
        | None \<Rightarrow> backup_groups)"

definition py_max :: "int list \<Rightarrow> exc + int" where
  \<comment> \<open>\<^verbatim>\<open>max(...)\<close>: raises ValueError on an empty sequence\<close>
  "py_max xs = (case xs of [] \<Rightarrow> Inl ValueError | x # rest \<Rightarrow> Inr (fold max rest x))"

definition has_database :: "BackupInfo list \<Rightarrow> bool" where
  "has_database backup_files = list_ex (\<lambda>f. str_contains ''database'' (filename f)) backup_files"

definition has_files :: "BackupInfo list \<Rightarrow> bool" where
  "has_files backup_files = list_ex (\<lambda>f. endswith (filename f) ''.tar'') backup_files"

definition has_config :: "BackupInfo list \<Rightarrow> bool" where
  "has_config backup_files = list_ex (\<lambda>f. str_contains ''config'' (filename f)) backup_files"

definition remote_set_type :: "BackupInfo list \<Rightarrow> string" where
  \<comment> \<open>the \<^verbatim>\<open>if\<close>/\<^verbatim>\<open>elif\<close> chain of \<^verbatim>\<open>BackupManager.list_backup_sets\<close>\<close>
  "remote_set_type backup_files =
     (if has_database backup_files \<and> has_files backup_files \<and> has_config backup_files
      then ''complete''
      else if has_database backup_files \<and> \<not> has_files backup_files then ''database''
      else if has_files backup_files \<and> \<not> has_database backup_files then ''files''
      else ''mixed'')"

definition local_set_type :: "BackupInfo list \<Rightarrow> string" where
  \<comment> \<open>the \<^verbatim>\<open>if\<close>/\<^verbatim>\<open>elif\<close> chain of \<^verbatim>\<open>TransferManager.get_local_backup_sets\<close>\<close>
  "local_set_type backup_files =
     (if has_database backup_files \<and> has_files backup_files then ''complete''
      else if has_database backup_files \<and> \<not> has_files backup_files then ''database''
      else if has_files backup_files \<and> \<not> has_database backup_files then ''files''
      else ''mixed'')"

definition make_backup_set ::
  "string \<Rightarrow> string \<Rightarrow> string \<Rightarrow> BackupInfo list \<Rightarrow> exc + BackupSet" where
  \<comment> \<open>total size, latest creation time and the \<^verbatim>\<open>BackupSet(...)\<close> constructor call\<close>
  "make_backup_set ts site btype backup_files =
     (let total_size = sum_list (map BackupInfo.size_mb backup_files)
      in case py_max (map BackupInfo.created_at backup_files) of
           Inl e \<Rightarrow> Inl e
         | Inr latest_time \<Rightarrow>
             Inr \<lparr>timestamp = ts, site_name = site, backup_type = btype,
                  created_at = latest_time, total_size_mb = total_size,
                  files = backup_files\<rparr>)"

text \<open>The second loop of \<^verbatim>\<open>BackupManager.list_backup_sets\<close>, over \<^verbatim>\<open>backup_groups.items()\<close>.\<close>

fun remote_sets :: "string \<Rightarrow> (string \<times> BackupInfo list) list \<Rightarrow> exc + BackupSet list" where
  "remote_sets site [] = Inr []"
| "remote_sets site ((ts, backup_files) # gs) =
     (case make_backup_set ts site (remote_set_type backup_files) backup_files of
        Inl e \<Rightarrow> Inl e
      | Inr backup_set \<Rightarrow>
          (case remote_sets site gs of
             Inl e \<Rightarrow> Inl e
           | Inr backup_sets \<Rightarrow> Inr (backup_set # backup_sets)))"

definition sorted_reverse :: "('a \<Rightarrow> int) \<Rightarrow> 'a list \<Rightarrow> 'a list" where
  \<comment> \<open>\<^verbatim>\<open>sorted(xs, key=key, reverse=True)\<close>: CPython reverses the list, sorts it stably
      in ascending order and reverses the result\<close>
  "sorted_reverse key xs = rev (sort_key key (rev xs))"

definition list_backup_sets :: "string \<Rightarrow> BackupInfo list \<Rightarrow> exc + BackupSet list" where
  \<comment> \<open>\<open>all_backups\<close> is what \<^verbatim>\<open>self.list_backups(hostname, bench_path, site_name)\<close> returned\<close>
  "list_backup_sets site all_backups =
     (case remote_sets site (group_backups all_backups []) of
        Inl e \<Rightarrow> Inl e
      | Inr backup_sets \<Rightarrow> Inr (sorted_reverse BackupSet.created_at backup_sets))"

subsection \<open>The local variant\<close>

text \<open>
  \<^verbatim>\<open>TransferManager.get_local_backups\<close> returns a dict from file name to a dict with the
  keys \<^verbatim>\<open>path\<close>, \<^verbatim>\<open>size_mb\<close>, \<^verbatim>\<open>modified\<close> and \<^verbatim>\<open>md5\<close>: an association list of
  \<open>LocalInfo\<close> records, in the order of the directory scan.
  \<^verbatim>\<open>datetime.fromtimestamp\<close> is a parameter of the model.
\<close>

record LocalInfo =
  path :: string
  size_mb :: rat
  modified :: rat
  md5 :: string

definition determine_local_backup_type :: "string \<Rightarrow> string" where
  "determine_local_backup_type fname =
     (let filename_lower = lower fname
      in if str_contains ''database'' filename_lower \<or> endswith filename_lower ''.sql.gz''
         then ''database''
         else if endswith filename_lower ''.tar'' \<and> str_contains ''private'' filename_lower
         then ''private_files''
         else if endswith filename_lower ''.tar'' then ''files''
         else if str_contains ''config'' filename_lower then ''config''
         else ''unknown'')"

definition local_backup_info :: "(rat \<Rightarrow> int) \<Rightarrow> string \<Rightarrow> LocalInfo \<Rightarrow> BackupInfo" where
  "local_backup_info fromtimestamp fname info =
     \<lparr>filename = fname, filepath = path info, site_name = ''unknown'',
      backup_type = determine_local_backup_type fname,
      created_at = fromtimestamp (modified info),
      size_mb = LocalInfo.size_mb info,
      compressed = (endswith fname ''.gz'' \<or> endswith fname ''.tar'' \<or> endswith fname ''.tgz''),
      md5_hash = Some (md5 info)\<rparr>"

fun group_local ::
  "(rat \<Rightarrow> int) \<Rightarrow> (string \<times> LocalInfo) list \<Rightarrow> (string \<times> BackupInfo list) list
     \<Rightarrow> (string \<times> BackupInfo list) list" where
  "group_local fromtimestamp [] backup_groups = backup_groups"
| "group_local fromtimestamp ((fname, info) # rest) backup_groups =
     group_local fromtimestamp rest
       (case match_timestamp fname of
          Some ts \<Rightarrow> group_add ts (local_backup_info fromtimestamp fname info) backup_groups
        | None \<Rightarrow> backup_groups)"

fun local_site_name :: "BackupInfo list \<Rightarrow> string" where
  \<comment> \<open>the loop with \<^verbatim>\<open>break\<close> that extracts the site name\<close>
  "local_site_name [] = ''unknown''"
| "local_site_name (backup_file # rest) =
     (case split_on CHR ''-'' (filename backup_file) of
        p0 # p1 # ps \<Rightarrow> replace_char CHR ''_'' CHR ''.'' p1
      | _ \<Rightarrow> local_site_name rest)"

fun local_sets :: "(string \<times> BackupInfo list) list \<Rightarrow> exc + (string \<times> BackupSet) list" where
  "local_sets [] = Inr []"
| "local_sets ((ts, backup_files) # gs) =
     (case make_backup_set ts (local_site_name backup_files) (local_set_type backup_files)
             backup_files of
        Inl e \<Rightarrow> Inl e
      | Inr backup_set \<Rightarrow>
          (case local_sets gs of
             Inl e \<Rightarrow> Inl e
           | Inr backup_sets \<Rightarrow> Inr ((ts, backup_set) # backup_sets)))"

definition get_local_backup_sets ::
  "(rat \<Rightarrow> int) \<Rightarrow> (string \<times> LocalInfo) list \<Rightarrow> exc + (string \<times> BackupSet) list" where
  \<comment> \<open>\<open>local_backups\<close> is what \<^verbatim>\<open>self.get_local_backups()\<close> returned\<close>
  "get_local_backup_sets fromtimestamp local_backups =
     (if local_backups = [] then Inr []
      else local_sets (group_local fromtimestamp local_backups []))"

subsection \<open>Vocabulary for the statements about grouping\<close>

definition bucket :: "(string \<times> 'a list) list \<Rightarrow> string \<Rightarrow> 'a list" where
  \<comment> \<open>the list stored under a key, empty when the key is absent\<close>
  "bucket g k = (case map_of g k of None \<Rightarrow> [] | Some vs \<Rightarrow> vs)"

fun first_seen :: "string list \<Rightarrow> string list" where
  \<comment> \<open>the distinct elements of a list, in the order of their first occurrence\<close>
  "first_seen [] = []"
| "first_seen (k # ks) = k # filter (\<lambda>x. x \<noteq> k) (first_seen ks)"

definition tokens :: "string list \<Rightarrow> string list" where
  \<comment> \<open>the timestamp tokens of the file names that have one, in order\<close>
  "tokens names = List.map_filter match_timestamp names"

definition newest_first :: "BackupSet list \<Rightarrow> bool" where
  "newest_first sets = sorted_wrt (\<lambda>a b. BackupSet.created_at b \<le> BackupSet.created_at a) sets"

subsection \<open>Example records\<close>

text \<open>A record as \<^verbatim>\<open>_parse_backup_info\<close> builds it, for the concrete evaluations below.\<close>

definition rec1 :: "string \<Rightarrow> int \<Rightarrow> rat \<Rightarrow> BackupInfo" where
  "rec1 n t s = \<lparr>filename = n, filepath = ''/b/'' @ n,
       site_name = ''site'', backup_type = ''database'', created_at = t, size_mb = s,
       compressed = True, md5_hash = None\<rparr>"

section \<open>The world of the transfer engine\<close>

text \<open>
  \<^verbatim>\<open>TransferManager\<close> works on the local storage directory and, through
  \<^verbatim>\<open>SSHManager\<close> and paramiko, on the remote host.  The local files it reads and
  writes are state (\<open>local_files\<close>: path to content); what the remote side and the
  network do is not decided by the repository, so it is a parameter: an \<open>env\<close> says,
  for every call the manager makes into paramiko, what that call does.  Every such call
  is recorded in the \<open>log\<close> of the world, oldest first.
\<close>

type_synonym bytes = string

datatype event =
    ExecStat string         \<comment> \<open>\<^verbatim>\<open>execute_command\<close> with the \<^verbatim>\<open>stat\<close> command on a remote path\<close>
  | SftpGet string string   \<comment> \<open>one transfer attempt: \<^verbatim>\<open>get_sftp_client\<close>,
                                \<^verbatim>\<open>sftp.get(remote, local)\<close>, \<^verbatim>\<open>sftp.close\<close>\<close>
  | SftpSession             \<comment> \<open>\<^verbatim>\<open>get_sftp_client\<close> of a resume or an upload\<close>
  | RemoteRead              \<comment> \<open>\<^verbatim>\<open>remote_file.read(chunk_size)\<close>\<close>
  | RemoteStat string       \<comment> \<open>\<^verbatim>\<open>sftp.stat(remote_dir)\<close>\<close>
  | RemoteMkdir string      \<comment> \<open>\<^verbatim>\<open>sftp.mkdir(remote_dir)\<close>\<close>
  | SftpPut string string   \<comment> \<open>\<^verbatim>\<open>sftp.put(local, remote)\<close>, \<^verbatim>\<open>sftp.close\<close>\<close>
  | Sleep nat               \<comment> \<open>\<^verbatim>\<open>time.sleep(seconds)\<close>\<close>
  | Unlink string           \<comment> \<open>\<^verbatim>\<open>local_path.unlink()\<close>\<close>

record world =
  local_files :: "string \<rightharpoonup> bytes"
  remote_paths :: "string list"
  clock :: rat
  log :: "event list"

datatype exec_result =
    ExecRaises              \<comment> \<open>\<^verbatim>\<open>execute_command\<close> raised\<close>
  | ExecReturns int string  \<comment> \<open>exit code and stdout\<close>

text \<open>
  What one \<^verbatim>\<open>_download_file_with_progress\<close> call meets: the cumulative byte counts
  paramiko reports to the callback, what the call leaves at the local path (\<open>None\<close>: the
  path was not touched, \<open>Some bs\<close>: a file with content \<open>bs\<close>), and the message of the
  exception that \<^verbatim>\<open>get_sftp_client\<close>, \<^verbatim>\<open>sftp.get\<close> or \<^verbatim>\<open>sftp.close\<close> raised, if one did.
\<close>

record get_outcome =
  reported :: "nat list"
  written :: "bytes option"
  raised :: "string option"

text \<open>
  What the chunk loop of \<^verbatim>\<open>resume_download\<close> meets, read by read.  A
  \<open>Chunk\<close> is a read that returned these bytes and whose write succeeded; its
  \<open>cancel_point\<close> says whether some owner of the tracker calls \<^verbatim>\<open>cancel()\<close> during
  that iteration, before or after the \<^verbatim>\<open>update\<close>.  A script that ends stands for the
  end of the remote file (\<^verbatim>\<open>read\<close> returns \<^verbatim>\<open>b''\<close>).  An observer can only fail when
  \<^verbatim>\<open>update\<close> calls it; otherwise an \<open>ObserverFails\<close> entry is an ordinary chunk.
\<close>

datatype cancel_point = Never | BeforeUpdate | AfterUpdate

datatype read_event =
    Chunk bytes cancel_point
  | ReadFails string            \<comment> \<open>\<^verbatim>\<open>remote_file.read\<close> raises\<close>
  | WriteFails string           \<comment> \<open>the read returned a chunk, \<^verbatim>\<open>local_file.write\<close> raises\<close>
  | ObserverFails bytes string  \<comment> \<open>the chunk is read and written, the observer called by
                                    \<^verbatim>\<open>update\<close> raises\<close>

record resume_outcome =
  connect_error :: "string option"      \<comment> \<open>\<^verbatim>\<open>get_sftp_client\<close> raises\<close>
  local_open_error :: "string option"   \<comment> \<open>\<^verbatim>\<open>open(local_path, 'ab')\<close> raises\<close>
  remote_open_error :: "string option"  \<comment> \<open>\<^verbatim>\<open>sftp.file\<close> or \<^verbatim>\<open>seek\<close> raises\<close>
  reads :: "read_event list"
  close_error :: "string option"        \<comment> \<open>\<^verbatim>\<open>sftp.close\<close> raises\<close>

record put_outcome =
  put_connect_error :: "string option"          \<comment> \<open>\<^verbatim>\<open>get_sftp_client\<close> raises\<close>
  stat_error :: "string \<Rightarrow> string option"   \<comment> \<open>\<^verbatim>\<open>sftp.stat\<close> raises something other than
                                                  FileNotFoundError\<close>
  mkdir_error :: "string \<Rightarrow> string option"  \<comment> \<open>\<^verbatim>\<open>sftp.mkdir\<close> raises\<close>
  put_reported :: "nat list"
  put_raised :: "string option"                 \<comment> \<open>\<^verbatim>\<open>sftp.put\<close> or \<^verbatim>\<open>sftp.close\<close> raises\<close>

record env =
  stat_reply :: "string \<Rightarrow> exec_result"
  get_script :: "nat \<Rightarrow> get_outcome"     \<comment> \<open>by the number of \<^verbatim>\<open>sftp.get\<close> calls made before\<close>
  resume_script :: resume_outcome
  put_script :: put_outcome

text \<open>The attributes \<^verbatim>\<open>TransferManager.__init__\<close> sets.\<close>

record TransferManager =
  local_storage_path :: string
  chunk_size :: nat
  max_retries :: nat
  retry_delay :: nat

definition new_manager :: "string \<Rightarrow> TransferManager" where
  "new_manager storage =
     \<lparr>local_storage_path = storage, chunk_size = 32768, max_retries = 3, retry_delay = 5\<rparr>"

fun is_get :: "event \<Rightarrow> bool" where
  "is_get (SftpGet r l) = True"
| "is_get e = False"

definition sftp_gets :: "world \<Rightarrow> nat" where
  "sftp_gets w = length (filter is_get (log w))"

definition emit :: "event \<Rightarrow> world \<Rightarrow> world" where
  "emit e w = w\<lparr>log := log w @ [e]\<rparr>"

subsection \<open>Strings and paths\<close>

definition is_space :: "char \<Rightarrow> bool" where
  "is_space c = (c \<in> set [CHR '' '', CHR 0x09, CHR 0x0A, CHR 0x0B, CHR 0x0C, CHR 0x0D])"

definition strip :: "string \<Rightarrow> string" where
  "strip s = rev (dropWhile is_space (rev (dropWhile is_space s)))"

definition isdigit :: "string \<Rightarrow> bool" where
  "isdigit s = (s \<noteq> [] \<and> list_all is_digit s)"

definition digit_value :: "char \<Rightarrow> nat" where
  "digit_value c =
     (case map_of (zip ''0123456789'' [0, 1, 2, 3, 4, 5, 6, 7, 8, 9]) c of
        Some d \<Rightarrow> d | None \<Rightarrow> 0)"

definition int_of_digits :: "string \<Rightarrow> nat" where
  \<comment> \<open>\<^verbatim>\<open>int(s)\<close> on a string of decimal digits\<close>
  "int_of_digits s = foldl (\<lambda>a c. 10 * a + digit_value c) 0 s"

definition dirname :: "string \<Rightarrow> string" where
  \<comment> \<open>\<^verbatim>\<open>os.path.dirname\<close> of \<^verbatim>\<open>posixpath\<close>: the head up to the last slash, without its
      trailing slashes unless it consists of slashes only\<close>
  "dirname p =
     (let head = rev (dropWhile (\<lambda>c. c \<noteq> CHR ''/'') (rev p))
      in if head \<noteq> [] \<and> \<not> list_all (\<lambda>c. c = CHR ''/'') head
         then rev (dropWhile (\<lambda>c. c = CHR ''/'') (rev head))
         else head)"

definition path_name :: "string \<Rightarrow> string" where
  \<comment> \<open>\<^verbatim>\<open>Path.name\<close>: the last component\<close>
  "path_name p = rev (takeWhile (\<lambda>c. c \<noteq> CHR ''/'') (rev p))"

definition path_join :: "string \<Rightarrow> string \<Rightarrow> string" where
  \<comment> \<open>\<^verbatim>\<open>Path / str\<close>: an absolute right operand replaces the left one\<close>
  "path_join base name = (if prefix ''/'' name then name else base @ ''/'' @ name)"

subsection \<open>Download\<close>

definition get_remote_file_size :: "env \<Rightarrow> string \<Rightarrow> world \<Rightarrow> nat option \<times> world" where
  "get_remote_file_size env remote_path w =
     (case stat_reply env remote_path of
        ExecRaises \<Rightarrow> None
      | ExecReturns exit_code stdout \<Rightarrow>
          if exit_code = 0 \<and> isdigit (strip stdout)
          then Some (int_of_digits (strip stdout)) else None,
      emit (ExecStat remote_path) w)"

definition progress_callback :: "nat \<Rightarrow> TransferProgress \<Rightarrow> TransferProgress" where
  \<comment> \<open>the closure handed to paramiko, which reports cumulative byte counts\<close>
  "progress_callback bytes_transferred progress =
     (if transferred progress = 0 then update (int bytes_transferred) progress
      else update (int bytes_transferred - transferred progress) progress)"

definition download_file_with_progress ::
  "env \<Rightarrow> string \<Rightarrow> string \<Rightarrow> world \<Rightarrow> TransferProgress
     \<Rightarrow> exc option \<times> world \<times> TransferProgress" where
  \<comment> \<open>\<open>None\<close>: returned normally; \<open>Some e\<close>: raised \<open>e\<close>\<close>
  "download_file_with_progress env remote_path local_path w progress =
     (let outcome = get_script env (sftp_gets w);
          w1 = emit (SftpGet remote_path local_path)
                 (case written outcome of
                    None \<Rightarrow> w
                  | Some bs \<Rightarrow> w\<lparr>local_files := (local_files w)(local_path \<mapsto> bs)\<rparr>)
      in (case raised outcome of
            None \<Rightarrow> None
          | Some m \<Rightarrow> Some (TE_SftpFailed (EnvError m)),
          w1, fold progress_callback (reported outcome) progress))"

definition verify_download :: "world \<Rightarrow> string \<Rightarrow> nat \<Rightarrow> bool" where
  "verify_download w local_path expected_size =
     (case local_files w local_path of
        None \<Rightarrow> False
      | Some bs \<Rightarrow> length bs = expected_size)"

definition sleep :: "nat \<Rightarrow> world \<Rightarrow> world" where
  "sleep seconds w = emit (Sleep seconds) (w\<lparr>clock := clock w + of_nat seconds\<rparr>)"

definition unlink_if_exists :: "string \<Rightarrow> world \<Rightarrow> world" where
  \<comment> \<open>\<^verbatim>\<open>if local_path.exists(): local_path.unlink()\<close>\<close>
  "unlink_if_exists local_path w =
     (case local_files w local_path of
        None \<Rightarrow> w
      | Some bs \<Rightarrow>
          emit (Unlink local_path) (w\<lparr>local_files := (local_files w)(local_path := None)\<rparr>))"

definition download_try ::
  "env \<Rightarrow> string \<Rightarrow> string \<Rightarrow> nat \<Rightarrow> world \<Rightarrow> TransferProgress
     \<Rightarrow> (exc + string) \<times> world \<times> TransferProgress" where
  \<comment> \<open>the body of the \<^verbatim>\<open>try\<close> in the retry loop\<close>
  "download_try env remote_path local_path remote_size w progress =
     (case download_file_with_progress env remote_path local_path w progress of
        (Some e, w1, p1) \<Rightarrow> (Inl e, w1, p1)
      | (None, w1, p1) \<Rightarrow>
          if verify_download w1 local_path remote_size then (Inr local_path, w1, p1)
          else (Inl TE_VerificationFailed, w1, p1))"

text \<open>
  The loop \<^verbatim>\<open>for attempt in range(self.max_retries)\<close> from \<open>attempt\<close> on, with its
  \<^verbatim>\<open>except\<close> handler, and the \<^verbatim>\<open>raise\<close> after the loop.
\<close>

function download_attempts ::
  "TransferManager \<Rightarrow> env \<Rightarrow> string \<Rightarrow> string \<Rightarrow> nat \<Rightarrow> nat \<Rightarrow> world \<Rightarrow> TransferProgress
     \<Rightarrow> (exc + string) \<times> world \<times> TransferProgress" where
  "download_attempts tm env remote_path local_path remote_size attempt w progress =
     (if max_retries tm \<le> attempt then (Inl TE_DownloadFailed, w, progress)
      else case download_try env remote_path local_path remote_size w progress of
             (Inr p, w1, p1) \<Rightarrow> (Inr p, w1, p1)
           | (Inl e, w1, p1) \<Rightarrow>
               if int attempt < int (max_retries tm) - 1
               then download_attempts tm env remote_path local_path remote_size (Suc attempt)
                      (unlink_if_exists local_path (sleep (retry_delay tm) w1)) p1
               else (Inl (TE_DownloadFailedAfter (max_retries tm) e), w1, p1))"
  by pat_completeness auto
termination
  by (relation "measure (\<lambda>(tm, env, rp, lp, rs, attempt, w, p). max_retries tm - attempt)") auto

declare download_attempts.simps [simp del]

definition resolve_local_path :: "TransferManager \<Rightarrow> BackupInfo \<Rightarrow> string option \<Rightarrow> string" where
  \<comment> \<open>\<^verbatim>\<open>if not local_filename: local_filename = backup_info.filename\<close>, then
      \<^verbatim>\<open>self.local_storage_path / local_filename\<close>\<close>
  "resolve_local_path tm backup_info local_filename =
     path_join (local_storage_path tm)
       (case local_filename of
          None \<Rightarrow> filename backup_info
        | Some n \<Rightarrow> if n = [] then filename backup_info else n)"

definition recorded_size :: "BackupInfo \<Rightarrow> int" where
  \<comment> \<open>\<^verbatim>\<open>int(backup_info.size_mb * 1024 * 1024)\<close>\<close>
  "recorded_size backup_info = py_int (BackupInfo.size_mb backup_info * 1024 * 1024)"

text \<open>
  The functions of the engine return the result (\<open>Inl\<close>: the exception raised), the
  world they leave, and the progress tracker they created, if they created one.
\<close>

definition download_backup ::
  "TransferManager \<Rightarrow> env \<Rightarrow> BackupInfo \<Rightarrow> string option \<Rightarrow> bool \<Rightarrow> world
     \<Rightarrow> (exc + string) \<times> world \<times> TransferProgress option" where
  "download_backup tm env backup_info local_filename has_cb w =
     (let local_path = resolve_local_path tm backup_info local_filename
      in if (case local_files w local_path of
               None \<Rightarrow> False
             | Some bs \<Rightarrow> int (length bs) = recorded_size backup_info)
         then (Inr local_path, w, None)
         else case get_remote_file_size env (filepath backup_info) w of
                (None, w1) \<Rightarrow> (Inl (TE_SizeUnavailable (filepath backup_info)), w1, None)
              | (Some remote_size, w1) \<Rightarrow>
                  (case download_attempts tm env (filepath backup_info) local_path remote_size 0
                          w1 (new_progress (int remote_size) has_cb (clock w1)) of
                     (r, w2, p2) \<Rightarrow> (r, w2, Some p2)))"

subsection \<open>Resume\<close>

definition append_local :: "string \<Rightarrow> bytes \<Rightarrow> world \<Rightarrow> world" where
  \<comment> \<open>\<^verbatim>\<open>local_file.write(chunk)\<close> on a file opened with \<^verbatim>\<open>'ab'\<close>\<close>
  "append_local local_path chunk w =
     w\<lparr>local_files := (local_files w)(local_path \<mapsto>
          (case local_files w local_path of None \<Rightarrow> chunk | Some bs \<Rightarrow> bs @ chunk))\<rparr>"

fun resume_loop ::
  "string \<Rightarrow> read_event list \<Rightarrow> world \<Rightarrow> TransferProgress
     \<Rightarrow> exc option \<times> world \<times> TransferProgress" where
  "resume_loop local_path [] w progress = (None, emit RemoteRead w, progress)"
| "resume_loop local_path (ReadFails m # rest) w progress =
     (Some (EnvError m), emit RemoteRead w, progress)"
| "resume_loop local_path (WriteFails m # rest) w progress =
     (Some (EnvError m), emit RemoteRead w, progress)"
| "resume_loop local_path (Chunk chunk cp # rest) w progress =
     (if chunk = [] then (None, emit RemoteRead w, progress)
      else let w1 = append_local local_path chunk (emit RemoteRead w);
               p1 = update (int (length chunk))
                      (if cp = BeforeUpdate then cancel progress else progress);
               p2 = (if cp = AfterUpdate then cancel p1 else p1)
           in if cancelled p2 then (Some TE_Cancelled, w1, p2)
              else resume_loop local_path rest w1 p2)"
| "resume_loop local_path (ObserverFails chunk m # rest) w progress =
     (if chunk = [] then (None, emit RemoteRead w, progress)
      else let w1 = append_local local_path chunk (emit RemoteRead w);
               p1 = update (int (length chunk)) progress
           in if has_callback progress \<and> \<not> cancelled progress then (Some (EnvError m), w1, p1)
              else if cancelled p1 then (Some TE_Cancelled, w1, p1)
              else resume_loop local_path rest w1 p1)"

definition resume_try ::
  "env \<Rightarrow> string \<Rightarrow> nat \<Rightarrow> world \<Rightarrow> TransferProgress
     \<Rightarrow> (exc + string) \<times> world \<times> TransferProgress" where
  \<comment> \<open>the body of the \<^verbatim>\<open>try\<close> of \<^verbatim>\<open>resume_download\<close>\<close>
  "resume_try env local_path remote_size w progress =
     (let s = resume_script env; w1 = emit SftpSession w
      in case connect_error s of
           Some m \<Rightarrow> (Inl (EnvError m), w1, progress)
         | None \<Rightarrow>
        (case local_open_error s of
           Some m \<Rightarrow> (Inl (EnvError m), w1, progress)
         | None \<Rightarrow>
        (case remote_open_error s of
           Some m \<Rightarrow> (Inl (EnvError m), w1, progress)
         | None \<Rightarrow>
        (case resume_loop local_path (reads s) w1 progress of
           (Some e, w2, p2) \<Rightarrow> (Inl e, w2, p2)
         | (None, w2, p2) \<Rightarrow>
        (case close_error s of
           Some m \<Rightarrow> (Inl (EnvError m), w2, p2)
         | None \<Rightarrow>
             if verify_download w2 local_path remote_size then (Inr local_path, w2, p2)
             else (Inl TE_ResumeVerificationFailed, w2, p2))))))"

definition resume_download ::
  "TransferManager \<Rightarrow> env \<Rightarrow> BackupInfo \<Rightarrow> string \<Rightarrow> bool \<Rightarrow> world
     \<Rightarrow> (exc + string) \<times> world \<times> TransferProgress option" where
  "resume_download tm env backup_info local_path has_cb w =
     (case local_files w local_path of
        None \<Rightarrow> download_backup tm env backup_info (Some (path_name local_path)) has_cb w
      | Some bs \<Rightarrow>
          (let local_size = length bs
           in case get_remote_file_size env (filepath backup_info) w of
                (None, w1) \<Rightarrow> (Inl TE_RemoteSizeUnknown, w1, None)
              | (Some remote_size, w1) \<Rightarrow>
                  if remote_size \<le> local_size
                  then (if local_size = remote_size then (Inr local_path, w1, None)
                        else (Inl TE_LocalLarger, w1, None))
                  else (let progress = (new_progress (int remote_size) has_cb (clock w1))
                                         \<lparr>transferred := int local_size\<rparr>
                        in case resume_try env local_path remote_size w1 progress of
                             (Inl e, w2, p2) \<Rightarrow> (Inl (TE_ResumeFailed e), w2, Some p2)
                           | (Inr p, w2, p2) \<Rightarrow> (Inr p, w2, Some p2))))"

subsection \<open>Upload\<close>

text \<open>
  \<^verbatim>\<open>_ensure_remote_directory\<close> recurses on \<^verbatim>\<open>os.path.dirname\<close>, which returns a
  proper prefix of its argument or the argument itself; this is why it terminates.
\<close>

lemma dirname_take: "\<exists>n. dirname p = take n p"
proof -
  have a: "rev (dropWhile P (rev xs)) = take (length xs - length (takeWhile P (rev xs))) xs"
    for P and xs :: string
  proof -
    have "rev xs = takeWhile P (rev xs) @ dropWhile P (rev xs)" by simp
    then have "xs = rev (dropWhile P (rev xs)) @ rev (takeWhile P (rev xs))"
      by (metis rev_append rev_rev_ident)
    then have "take (length (rev (dropWhile P (rev xs)))) xs = rev (dropWhile P (rev xs))"
      by (metis append_eq_conv_conj)
    moreover have "length (rev (dropWhile P (rev xs))) = length xs - length (takeWhile P (rev xs))"
      by (metis add_diff_cancel_left' length_append length_rev takeWhile_dropWhile_id)
    ultimately show ?thesis by simp
  qed
  show ?thesis
    unfolding dirname_def Let_def
    by (simp only: a take_take split: if_splits) blast
qed

lemma dirname_shorter: "dirname p \<noteq> p \<Longrightarrow> length (dirname p) < length p"
proof -
  assume ne: "dirname p \<noteq> p"
  obtain n where n: "dirname p = take n p" using dirname_take by blast
  have "n < length p"
  proof (rule ccontr)
    assume "\<not> n < length p"
    then have "take n p = p" by simp
    with n ne show False by simp
  qed
  then show ?thesis using n by simp
qed

function ensure_remote_directory ::
  "put_outcome \<Rightarrow> string \<Rightarrow> world \<Rightarrow> exc option \<times> world" where
  "ensure_remote_directory s remote_dir w =
     (let w1 = emit (RemoteStat remote_dir) w
      in case stat_error s remote_dir of
           Some m \<Rightarrow> (Some (EnvError m), w1)
         | None \<Rightarrow>
             if remote_dir \<in> set (remote_paths w1) then (None, w1)
             else (let parent_dir = dirname remote_dir
                   in case (if parent_dir \<noteq> [] \<and> parent_dir \<noteq> remote_dir
                            then ensure_remote_directory s parent_dir w1
                            else (None, w1)) of
                        (Some e, w2) \<Rightarrow> (Some e, w2)
                      | (None, w2) \<Rightarrow>
                          (case mkdir_error s remote_dir of
                             Some m \<Rightarrow> (Some (EnvError m), emit (RemoteMkdir remote_dir) w2)
                           | None \<Rightarrow>
                               (None, emit (RemoteMkdir remote_dir)
                                        (w2\<lparr>remote_paths := remote_paths w2 @ [remote_dir]\<rparr>)))))"
  by pat_completeness auto
termination
  by (relation "measure (\<lambda>(s, remote_dir, w). length remote_dir)")
     (auto simp: dirname_shorter)

declare ensure_remote_directory.simps [simp del]

definition upload_try ::
  "env \<Rightarrow> string \<Rightarrow> string \<Rightarrow> world \<Rightarrow> TransferProgress
     \<Rightarrow> (exc + bool) \<times> world \<times> TransferProgress" where
  \<comment> \<open>the body of the \<^verbatim>\<open>try\<close> of \<^verbatim>\<open>upload_backup\<close>\<close>
  "upload_try env local_path remote_path w progress =
     (let s = put_script env; w1 = emit SftpSession w
      in case put_connect_error s of
           Some m \<Rightarrow> (Inl (EnvError m), w1, progress)
         | None \<Rightarrow>
        (case (let remote_dir = dirname remote_path
               in if remote_dir \<noteq> [] then ensure_remote_directory s remote_dir w1
                  else (None, w1)) of
           (Some e, w2) \<Rightarrow> (Inl e, w2, progress)
         | (None, w2) \<Rightarrow>
             (let w3 = emit (SftpPut local_path remote_path) w2;
                  p1 = fold progress_callback (put_reported s) progress
              in case put_raised s of
                   Some m \<Rightarrow> (Inl (EnvError m), w3, p1)
                 | None \<Rightarrow>
                     (Inr True, w3\<lparr>remote_paths := remote_paths w3 @ [remote_path]\<rparr>, p1))))"

definition upload_backup ::
  "TransferManager \<Rightarrow> env \<Rightarrow> string \<Rightarrow> string \<Rightarrow> bool \<Rightarrow> world
     \<Rightarrow> (exc + bool) \<times> world \<times> TransferProgress option" where
  "upload_backup tm env local_path remote_path has_cb w =
     (case local_files w local_path of
        None \<Rightarrow> (Inl (TE_LocalNotFound local_path), w, None)
      | Some bs \<Rightarrow>
          (let local_size = length bs;
               progress = new_progress (int local_size) has_cb (clock w)
           in case upload_try env local_path remote_path w progress of
                (Inl e, w1, p1) \<Rightarrow> (Inl (TE_UploadFailed e), w1, Some p1)
              | (Inr ok, w1, p1) \<Rightarrow> (Inr ok, w1, Some p1)))"

subsection \<open>Vocabulary for the statements about transfers\<close>

definition attempt_fails :: "nat \<Rightarrow> get_outcome \<Rightarrow> bool" where
  \<comment> \<open>the transfer raises, or it leaves a file that is not of the expected size\<close>
  "attempt_fails remote_size outcome =
     (case raised outcome of
        Some m \<Rightarrow> True
      | None \<Rightarrow> (case written outcome of None \<Rightarrow> False | Some bs \<Rightarrow> length bs \<noteq> remote_size))"

definition attempt_error :: "get_outcome \<Rightarrow> exc" where
  \<comment> \<open>the exception a failed attempt ends with\<close>
  "attempt_error outcome =
     (case raised outcome of
        Some m \<Rightarrow> TE_SftpFailed (EnvError m)
      | None \<Rightarrow> TE_VerificationFailed)"

subsection \<open>Example worlds\<close>

definition empty_world :: world where
  "empty_world = \<lparr>local_files = Map.empty, remote_paths = [], clock = 0, log = []\<rparr>"

definition world_with :: "string \<Rightarrow> bytes \<Rightarrow> world" where
  \<comment> \<open>one local file, nothing else\<close>
  "world_with p bs = \<lparr>local_files = [p \<mapsto> bs], remote_paths = [], clock = 0, log = []\<rparr>"

definition flaky_env :: "string \<Rightarrow> env" where
  \<comment> \<open>the remote file has the size \<open>stdout\<close> says; every \<^verbatim>\<open>sftp.get\<close> writes two bytes and
      the connection is reset; a resumed read delivers two bytes and the next read times
      out; an upload goes through\<close>
  "flaky_env stdout =
     \<lparr>stat_reply = (\<lambda>p. ExecReturns 0 stdout),
      get_script = (\<lambda>i. \<lparr>reported = [2], written = Some ''ab'', raised = Some ''reset''\<rparr>),
      resume_script =
        \<lparr>connect_error = None, local_open_error = None, remote_open_error = None,
         reads = [Chunk ''cd'' Never, ReadFails ''timeout''], close_error = None\<rparr>,
      put_script =
        \<lparr>put_connect_error = None, stat_error = (\<lambda>p. None), mkdir_error = (\<lambda>p. None),
         put_reported = [1, 2], put_raised = None\<rparr>\<rparr>"

definition steady_env :: "bytes \<Rightarrow> env" where
  \<comment> \<open>the remote file has the content \<open>data\<close>: the size query says so and every
      \<^verbatim>\<open>sftp.get\<close> writes it all; a resumed read delivers two bytes and then the end of
      the file\<close>
  "steady_env data =
     \<lparr>stat_reply = (\<lambda>p. ExecReturns 0 ''6''),
      get_script = (\<lambda>i. \<lparr>reported = [length data], written = Some data, raised = None\<rparr>),
      resume_script =
        \<lparr>connect_error = None, local_open_error = None, remote_open_error = None,
         reads = [Chunk ''cd'' Never], close_error = None\<rparr>,
      put_script =
        \<lparr>put_connect_error = None, stat_error = (\<lambda>p. None), mkdir_error = (\<lambda>p. None),
         put_reported = [1, 2], put_raised = None\<rparr>\<rparr>"

subsection \<open>The size a listed record states\<close>

text \<open>
  \<^verbatim>\<open>BackupManager._parse_backup_info\<close> stores
  \<^verbatim>\<open>size_mb = round(size_bytes / (1024 * 1024), 2)\<close>.  The quotient is exact in a
  double for every file size below \<open>2^53\<close>, and Python rounds it to the nearest hundredth,
  an exact tie going to the even one.
\<close>

definition py_round2 :: "rat \<Rightarrow> rat" where
  "py_round2 x =
     (let y = x * 100; f = \<lfloor>y\<rfloor>; d = y - of_int f
      in of_int (if d < 1 / 2 then f else if 1 / 2 < d then f + 1
                 else if even f then f else f + 1) / 100)"

definition parse_size_mb :: "nat \<Rightarrow> rat" where
  "parse_size_mb size_bytes = py_round2 (of_nat size_bytes / (1024 * 1024))"

definition listed :: "string \<Rightarrow> int \<Rightarrow> nat \<Rightarrow> BackupInfo" where
  \<comment> \<open>the record \<^verbatim>\<open>_parse_backup_info\<close> builds for a remote file of \<open>size_bytes\<close> bytes\<close>
  "listed n t size_bytes = rec1 n t (parse_size_mb size_bytes)"

subsection \<open>Vocabulary for the statements about resuming\<close>

fun plain_chunks :: "read_event list \<Rightarrow> bool" where
  \<comment> \<open>reads that each deliver a non-empty chunk, with no cancellation\<close>
  "plain_chunks [] = True"
| "plain_chunks (Chunk c cp # rest) = (c \<noteq> [] \<and> cp = Never \<and> plain_chunks rest)"
| "plain_chunks (e # rest) = False"

fun chunk_data :: "read_event list \<Rightarrow> bytes" where
  \<comment> \<open>the bytes the chunks of a script deliver, in order\<close>
  "chunk_data [] = []"
| "chunk_data (Chunk c cp # rest) = c @ chunk_data rest"
| "chunk_data (e # rest) = chunk_data rest"

fun io_failure :: "read_event \<Rightarrow> string option" where
  \<comment> \<open>the message of a failing chunk read or chunk write\<close>
  "io_failure (ReadFails m) = Some m"
| "io_failure (WriteFails m) = Some m"
| "io_failure e = None"

definition opens_ok :: "resume_outcome \<Rightarrow> bool" where
  \<comment> \<open>the SFTP session, the local file and the remote file are opened without error\<close>
  "opens_ok s =
     (connect_error s = None \<and> local_open_error s = None \<and> remote_open_error s = None)"

section \<open>Properties of TransferProgress\<close>

lemma updates_transferred: "transferred (updates ds p) = transferred p + sum_list ds"
  by (induction ds arbitrary: p) (simp_all add: update_def Let_def)

lemma updates_cancelled_calls: "cancelled p \<Longrightarrow> calls (updates ds p) = calls p"
  by (induction ds arbitrary: p) (simp_all add: update_def Let_def)

lemma updates_cancelled: "cancelled (updates ds p) = cancelled p"
  by (induction ds arbitrary: p) (simp_all add: update_def Let_def)

text \<open>
  C8.  The percentage never raises: it is 0 when the total is 0 and otherwise
  min(100, transferred / total * 100).  The ETA is None when nothing has been
  transferred, and None when the computed rate is zero.
\<close>

theorem C8_percentage_eta:
  "percentage p =
     Inr (if total_size p = 0 then 0
          else min 100 (of_int (transferred p) / of_int (total_size p) * 100))
   \<and> (total_size p = 0 \<longrightarrow> percentage p = Inr 0)
   \<and> (transferred p = 0 \<longrightarrow> eta_seconds now p = Inr None)
   \<and> (py_truediv (of_int (transferred p)) (now - start_time p) = Inr 0
        \<longrightarrow> eta_seconds now p = Inr None)"
  by (simp add: percentage_def eta_seconds_def py_truediv_def Let_def)

theorem C8_percentage_eta_witness:
  "percentage (new_progress 0 True 5) = Inr 0
   \<and> eta_seconds 9 (new_progress 0 True 5) = Inr None
   \<and> percentage (update 30 (new_progress 40 False 5)) = Inr 75
   \<and> percentage (update 50 (new_progress 40 False 5)) = Inr 100"
  using C8_percentage_eta [of "new_progress 0 True 5" 9]
        C8_percentage_eta [of "update 30 (new_progress 40 False 5)" 9]
        C8_percentage_eta [of "update 50 (new_progress 40 False 5)" 9]
  by (simp add: new_progress_def update_def Let_def)

text \<open>
  C10.  \<^verbatim>\<open>cancel()\<close> sets the flag.  Once the flag is set, no later \<^verbatim>\<open>update()\<close> invokes
  the observer (the log of invocations stays as it was, and the flag stays set), while
  \<^verbatim>\<open>transferred\<close> still grows by every delta.  Before cancellation, an \<^verbatim>\<open>update()\<close> with
  a registered callback invokes it exactly once, showing it the new counter.
\<close>

theorem C10_cancel_silences_observer:
  "cancelled (cancel p)
   \<and> (cancelled p \<longrightarrow>
        calls (updates ds p) = calls p
        \<and> cancelled (updates ds p)
        \<and> transferred (updates ds p) = transferred p + sum_list ds)
   \<and> (has_callback p \<and> \<not> cancelled p \<longrightarrow>
        calls (update d p) = calls p @ [transferred p + d]
        \<and> transferred (update d p) = transferred p + d)"
  by (simp add: updates_cancelled_calls updates_cancelled updates_transferred
        cancel_def update_def Let_def)

theorem C10_cancel_silences_observer_witness:
  "calls (updates [7, 8] (cancel (update 5 (new_progress 20 True 0)))) = [5]
   \<and> transferred (updates [7, 8] (cancel (update 5 (new_progress 20 True 0)))) = 20
   \<and> calls (update 7 (update 5 (new_progress 20 True 0))) = [5, 12]"
  using C10_cancel_silences_observer
          [of "update 5 (new_progress 20 True 0)" "[7, 8]" 7]
        C10_cancel_silences_observer
          [of "cancel (update 5 (new_progress 20 True 0))" "[7, 8]" 7]
  by (simp add: new_progress_def update_def cancel_def Let_def)

section \<open>Properties of the grouping\<close>

lemma keys_group_add:
  "map fst (group_add k v g) = (if k \<in> set (map fst g) then map fst g else map fst g @ [k])"
  by (induction g) force+

lemma keyset_group_add: "fst ` set (group_add k v g) = insert k (fst ` set g)"
proof -
  have "set (map fst (group_add k v g)) = insert k (set (map fst g))"
    unfolding keys_group_add by auto
  then show ?thesis by simp
qed

lemma bucket_group_add:
  "bucket (group_add k v g) t = (if t = k then bucket g k @ [v] else bucket g t)"
  by (induction g) (auto simp: bucket_def)

lemma nonempty_group_add:
  "\<forall>e\<in>set g. snd e \<noteq> [] \<Longrightarrow> \<forall>e\<in>set (group_add k v g). snd e \<noteq> []"
  by (induction g) (force split: if_splits)+

lemma distinct_group_add:
  "distinct (map fst g) \<Longrightarrow> distinct (map fst (group_add k v g))"
  by (simp add: keys_group_add)

lemma bucket_member:
  "distinct (map fst g) \<Longrightarrow> (k, vs) \<in> set g \<Longrightarrow> bucket g k = vs"
  by (simp add: bucket_def)

lemma first_seen_set: "set (first_seen ks) = set ks"
  by (induction ks) auto

lemma first_seen_distinct: "distinct (first_seen ks)"
  by (induction ks) (auto simp: first_seen_set)

lemma bucket_group_backups:
  "bucket (group_backups bs g) t =
     bucket g t @ filter (\<lambda>b. match_timestamp (filename b) = Some t) bs"
  by (induction bs arbitrary: g) (auto simp: bucket_group_add split: option.splits)

lemma nonempty_group_backups:
  "\<forall>e\<in>set g. snd e \<noteq> [] \<Longrightarrow> \<forall>e\<in>set (group_backups bs g). snd e \<noteq> []"
proof (induction bs arbitrary: g)
  case Nil
  then show ?case by simp
next
  case (Cons b bs)
  show ?case
  proof (cases "match_timestamp (filename b)")
    case None
    with Cons show ?thesis by simp
  next
    case (Some t)
    have "\<forall>e\<in>set (group_add t b g). snd e \<noteq> []"
      using Cons.prems by (rule nonempty_group_add)
    from Cons.IH [OF this] Some show ?thesis by simp
  qed
qed

lemma filter_filter_absorb:
  "k \<in> K \<Longrightarrow> filter (\<lambda>x. x \<notin> K) (filter (\<lambda>x. x \<noteq> k) xs) = filter (\<lambda>x. x \<notin> K) xs"
  by (induction xs) auto

lemma keys_group_backups:
  "map fst (group_backups bs g) =
     map fst g @ filter (\<lambda>k. k \<notin> set (map fst g)) (first_seen (tokens (map filename bs)))"
proof (induction bs arbitrary: g)
  case Nil
  then show ?case by (simp add: tokens_def)
next
  case (Cons b bs)
  show ?case
  proof (cases "match_timestamp (filename b)")
    case None
    with Cons show ?thesis by (simp add: tokens_def)
  next
    case (Some t)
    have tk: "tokens (map filename (b # bs)) = t # tokens (map filename bs)"
      using Some by (simp add: tokens_def)
    show ?thesis
    proof (cases "t \<in> set (map fst g)")
      case True
      have "filter (\<lambda>k. k \<noteq> t \<and> k \<notin> fst ` set g) xs =
            filter (\<lambda>k. k \<notin> fst ` set g) xs" for xs
        using True by (induction xs) auto
      then show ?thesis
        using True Some Cons.IH [of "group_add t b g"] tk
        by (simp add: keys_group_add)
    next
      case False
      have "filter (\<lambda>k. k \<noteq> t \<and> k \<notin> fst ` set g) xs =
            filter (\<lambda>k. k \<notin> fst ` set g) (filter (\<lambda>x. x \<noteq> t) xs)" for xs
        by (induction xs) auto
      then show ?thesis
        using False Some Cons.IH [of "group_add t b g"] tk
        by (simp add: keys_group_add)
    qed
  qed
qed

lemma py_max_Max: "xs \<noteq> [] \<Longrightarrow> py_max xs = Inr (Max (set xs))"
  by (cases xs) (simp_all add: py_max_def Max.set_eq_fold [symmetric])

lemma make_backup_set_ok:
  "fs \<noteq> [] \<Longrightarrow>
   make_backup_set ts site ty fs =
     Inr \<lparr>timestamp = ts, site_name = site, backup_type = ty,
          created_at = Max (set (map BackupInfo.created_at fs)),
          total_size_mb = sum_list (map BackupInfo.size_mb fs), files = fs\<rparr>"
  by (simp add: make_backup_set_def py_max_Max)


lemma remote_sets_ok:
  "\<forall>e\<in>set g. snd e \<noteq> [] \<Longrightarrow>
   \<exists>sets. remote_sets site g = Inr sets
     \<and> map timestamp sets = map fst g
     \<and> map files sets = map snd g
     \<and> (\<forall>s\<in>set sets. 
            BackupSet.created_at s = Max (set (map BackupInfo.created_at (files s)))
          \<and> total_size_mb s = sum_list (map BackupInfo.size_mb (files s))
          \<and> BackupSet.backup_type s = remote_set_type (files s))"
proof (induction g)
  case Nil
  then show ?case by simp
next
  case (Cons e g)
  obtain ts fs where e: "e = (ts, fs)" by (cases e)
  from Cons.prems e have ne: "fs \<noteq> []" by simp
  from Cons obtain sets where IH: "remote_sets site g = Inr sets"
     "map timestamp sets = map fst g" "map files sets = map snd g"
     "\<forall>s\<in>set sets. 
            BackupSet.created_at s = Max (set (map BackupInfo.created_at (files s)))
          \<and> total_size_mb s = sum_list (map BackupInfo.size_mb (files s))
          \<and> BackupSet.backup_type s = remote_set_type (files s)"
    by auto
  show ?case
    using e IH make_backup_set_ok [OF ne, of ts site "remote_set_type fs"]
    by simp
qed

lemma local_sets_ok:
  "\<forall>e\<in>set g. snd e \<noteq> [] \<Longrightarrow>
   \<exists>sets. local_sets g = Inr sets
     \<and> map fst sets = map fst g
     \<and> map (\<lambda>e. timestamp (snd e)) sets = map fst g
     \<and> map (\<lambda>e. files (snd e)) sets = map snd g
     \<and> (\<forall>e\<in>set sets. BackupSet.backup_type (snd e) = local_set_type (files (snd e)))"
proof (induction g)
  case Nil
  then show ?case by simp
next
  case (Cons e g)
  obtain ts fs where e: "e = (ts, fs)" by (cases e)
  from Cons.prems e have ne: "fs \<noteq> []" by simp
  from Cons obtain sets where IH: "local_sets g = Inr sets"
     "map fst sets = map fst g" "map (\<lambda>e. timestamp (snd e)) sets = map fst g"
     "map (\<lambda>e. files (snd e)) sets = map snd g"
     "\<forall>e\<in>set sets. BackupSet.backup_type (snd e) = local_set_type (files (snd e))"
    by auto
  show ?case
    using e IH make_backup_set_ok [OF ne, of ts "local_site_name fs" "local_set_type fs"]
    by simp
qed

lemma bucket_group_local:
  "bucket (group_local ft lb g) t =
     bucket g t @ map (\<lambda>e. local_backup_info ft (fst e) (snd e))
                    (filter (\<lambda>e. match_timestamp (fst e) = Some t) lb)"
  by (induction lb arbitrary: g) (auto simp: bucket_group_add split: option.splits)

lemma nonempty_group_local:
  "\<forall>e\<in>set g. snd e \<noteq> [] \<Longrightarrow> \<forall>e\<in>set (group_local ft lb g). snd e \<noteq> []"
proof (induction lb arbitrary: g)
  case Nil
  then show ?case by simp
next
  case (Cons b lb)
  obtain n i where b: "b = (n, i)" by (cases b)
  show ?case
  proof (cases "match_timestamp n")
    case None
    with Cons b show ?thesis by simp
  next
    case (Some t)
    have "\<forall>e\<in>set (group_add t (local_backup_info ft n i) g). snd e \<noteq> []"
      using Cons.prems by (rule nonempty_group_add)
    from Cons.IH [OF this] Some b show ?thesis by simp
  qed
qed

lemma keys_group_local:
  "set (map fst (group_local ft lb g)) = set (map fst g) \<union> set (tokens (map fst lb))"
proof (induction lb arbitrary: g)
  case Nil
  then show ?case by (simp add: tokens_def)
next
  case (Cons b lb)
  obtain n i where b: "b = (n, i)" by (cases b)
  show ?case
    using Cons.IH b
    by (cases "match_timestamp n") (simp_all add: tokens_def keyset_group_add)
qed

lemma distinct_group_local:
  "distinct (map fst g) \<Longrightarrow> distinct (map fst (group_local ft lb g))"
proof (induction lb arbitrary: g)
  case Nil
  then show ?case by simp
next
  case (Cons b lb)
  obtain n i where b: "b = (n, i)" by (cases b)
  show ?case
  proof (cases "match_timestamp n")
    case None
    with Cons b show ?thesis by simp
  next
    case (Some t)
    have "distinct (map fst (group_add t (local_backup_info ft n i) g))"
      using Cons.prems by (rule distinct_group_add)
    from Cons.IH [OF this] Some b show ?thesis by simp
  qed
qed

lemma distinct_group_backups:
  "distinct (map fst (group_backups bs []))"
  by (simp add: keys_group_backups first_seen_distinct)

lemma sorted_reverse_set: "set (sorted_reverse key xs) = set xs"
  by (simp add: sorted_reverse_def)

lemma sorted_reverse_mset: "mset (sorted_reverse key xs) = mset xs"
  by (simp add: sorted_reverse_def)

lemma sorted_reverse_stable:
  "filter (\<lambda>x. key x = k) (sorted_reverse key xs) = filter (\<lambda>x. key x = k) xs"
  by (simp add: sorted_reverse_def rev_filter [symmetric] sort_key_stable)

lemma sorted_reverse_desc:
  "sorted_wrt (\<lambda>a b. key b \<le> key a) (sorted_reverse key xs)"
proof -
  have "sorted (map key (sort_key key (rev xs)))" by (rule sorted_sort_key)
  then have "sorted_wrt (\<lambda>a b. key a \<le> key b) (sort_key key (rev xs))"
    by (simp add: sorted_wrt_map)
  then show ?thesis
    by (simp add: sorted_reverse_def sorted_wrt_rev)
qed

lemma sorted_reverse_distinct_map:
  "distinct (map f (sorted_reverse key xs)) = distinct (map f xs)"
proof -
  have "mset (map f (sorted_reverse key xs)) = mset (map f xs)"
    by (simp add: sorted_reverse_mset)
  then show ?thesis by (rule mset_eq_imp_distinct_iff)
qed

lemma grouped_remote:
  "\<exists>unsorted.
      remote_sets site (group_backups all_backups []) = Inr unsorted
    \<and> list_backup_sets site all_backups = Inr (sorted_reverse BackupSet.created_at unsorted)
    \<and> map timestamp unsorted = first_seen (tokens (map filename all_backups))
    \<and> (\<forall>s\<in>set unsorted.
           files s = filter (\<lambda>b. match_timestamp (filename b) = Some (timestamp s)) all_backups
         \<and> files s \<noteq> []
         \<and> BackupSet.created_at s = Max (set (map BackupInfo.created_at (files s)))
         \<and> total_size_mb s = sum_list (map BackupInfo.size_mb (files s))
         \<and> BackupSet.backup_type s = remote_set_type (files s))"
proof -
  let ?g = "group_backups all_backups []"
  have ne: "\<forall>e\<in>set ?g. snd e \<noteq> []"
    by (rule nonempty_group_backups) simp
  from remote_sets_ok [OF ne, of site] obtain sets where S:
    "remote_sets site ?g = Inr sets" "map timestamp sets = map fst ?g"
    "map files sets = map snd ?g"
    "\<forall>s\<in>set sets.
        BackupSet.created_at s = Max (set (map BackupInfo.created_at (files s)))
      \<and> total_size_mb s = sum_list (map BackupInfo.size_mb (files s))
      \<and> BackupSet.backup_type s = remote_set_type (files s)"
    by blast
  have mem: "(timestamp s, files s) \<in> set ?g" if "s \<in> set sets" for s
  proof -
    from that obtain i where i: "i < length sets" "sets ! i = s"
      by (auto simp: in_set_conv_nth)
    have len: "length ?g = length sets" using S(2) by (metis length_map)
    have "fst (?g ! i) = timestamp s" using S(2) i len by (metis nth_map)
    moreover have "snd (?g ! i) = files s" using S(3) i len by (metis nth_map)
    ultimately have "?g ! i = (timestamp s, files s)" by (metis prod.collapse)
    then show ?thesis using i len by (metis nth_mem)
  qed
  have fl: "files s = filter (\<lambda>b. match_timestamp (filename b) = Some (timestamp s)) all_backups
            \<and> files s \<noteq> []"
    if "s \<in> set sets" for s
  proof -
    have "bucket ?g (timestamp s) = files s"
      using distinct_group_backups mem [OF that] by (rule bucket_member)
    moreover have "files s \<noteq> []" using ne mem [OF that] by force
    moreover have "bucket ?g (timestamp s) =
        bucket [] (timestamp s) @
        filter (\<lambda>b. match_timestamp (filename b) = Some (timestamp s)) all_backups"
      by (rule bucket_group_backups)
    moreover have "bucket ([] :: (string \<times> BackupInfo list) list) (timestamp s) = []"
      by (simp add: bucket_def)
    ultimately show ?thesis by simp
  qed
  have keys: "map timestamp sets = first_seen (tokens (map filename all_backups))"
    using S(2) by (simp add: keys_group_backups)
  have lbs: "list_backup_sets site all_backups = Inr (sorted_reverse BackupSet.created_at sets)"
    using S(1) by (simp add: list_backup_sets_def)
  show ?thesis
    using S(1) S(4) fl keys lbs by blast
qed


lemma tokens_set: "set (tokens names) = {t. \<exists>n\<in>set names. match_timestamp n = Some t}"
  by (induction names) (auto simp: tokens_def split: option.splits)

lemma distinct_map_unique:
  "distinct (map f xs) \<Longrightarrow> x \<in> set xs \<Longrightarrow> y \<in> set xs \<Longrightarrow> f x = f y \<Longrightarrow> x = y"
  by (metis distinct_map inj_onD)

lemma grouped_local:
  "\<exists>sets. get_local_backup_sets ft lb = Inr sets
     \<and> distinct (map fst sets)
     \<and> set (map fst sets) = set (tokens (map fst lb))
     \<and> (\<forall>e\<in>set sets.
           timestamp (snd e) = fst e
         \<and> files (snd e) =
             map (\<lambda>x. local_backup_info ft (fst x) (snd x))
               (filter (\<lambda>x. match_timestamp (fst x) = Some (fst e)) lb)
         \<and> BackupSet.backup_type (snd e) = local_set_type (files (snd e)))"
proof -
  let ?g = "group_local ft lb []"
  have ne: "\<forall>e\<in>set ?g. snd e \<noteq> []"
    by (rule nonempty_group_local) simp
  have dist: "distinct (map fst ?g)"
    by (rule distinct_group_local) simp
  from local_sets_ok [OF ne] obtain sets where S:
    "local_sets ?g = Inr sets" "map fst sets = map fst ?g"
    "map (\<lambda>e. timestamp (snd e)) sets = map fst ?g"
    "map (\<lambda>e. files (snd e)) sets = map snd ?g"
    "\<forall>e\<in>set sets. BackupSet.backup_type (snd e) = local_set_type (files (snd e))"
    by blast
  have res: "get_local_backup_sets ft lb = Inr sets"
    using S(1) by (cases lb) (simp_all add: get_local_backup_sets_def)
  have len: "length ?g = length sets" using S(2) by (metis length_map)
  have mem: "timestamp (snd e) = fst e \<and> (fst e, files (snd e)) \<in> set ?g"
    if "e \<in> set sets" for e
  proof -
    from that obtain i where i: "i < length sets" "sets ! i = e"
      by (auto simp: in_set_conv_nth)
    have a: "fst (?g ! i) = fst e" using S(2) i len by (metis nth_map)
    have "map (\<lambda>e. timestamp (snd e)) sets ! i = map fst ?g ! i" using S(3) by simp
    then have b: "timestamp (snd e) = fst (?g ! i)" using i len by simp
    have "map (\<lambda>e. files (snd e)) sets ! i = map snd ?g ! i" using S(4) by simp
    then have c: "files (snd e) = snd (?g ! i)" using i len by simp
    have "?g ! i = (fst e, files (snd e))" using a c by (metis prod.collapse)
    then have "(fst e, files (snd e)) \<in> set ?g" using i len by (metis nth_mem)
    then show ?thesis using a b by simp
  qed
  have fl: "files (snd e) =
             map (\<lambda>x. local_backup_info ft (fst x) (snd x))
               (filter (\<lambda>x. match_timestamp (fst x) = Some (fst e)) lb)"
    if "e \<in> set sets" for e
  proof -
    have "bucket ?g (fst e) = files (snd e)"
      using dist mem [OF that] by (simp add: bucket_member)
    moreover have "bucket ?g (fst e) =
        bucket [] (fst e) @ map (\<lambda>x. local_backup_info ft (fst x) (snd x))
               (filter (\<lambda>x. match_timestamp (fst x) = Some (fst e)) lb)"
      by (rule bucket_group_local)
    moreover have "bucket ([] :: (string \<times> BackupInfo list) list) (fst e) = []"
      by (simp add: bucket_def)
    ultimately show ?thesis by simp
  qed
  have keys: "set (map fst sets) = set (tokens (map fst lb))"
    using S(2) keys_group_local [of ft lb "[]"] by simp
  have d: "distinct (map fst sets)" using S(2) dist by simp
  show ?thesis
    using res d keys mem fl S(5) by blast
qed

lemmas grouping_eval =
  list_backup_sets_def get_local_backup_sets_def match_timestamp_def is_digit_def
  make_backup_set_def py_max_def remote_set_type_def local_set_type_def
  has_database_def has_files_def has_config_def endswith_def sorted_reverse_def
  local_backup_info_def determine_local_backup_type_def lower_def lower_char_def
  replace_char_def tokens_def newest_first_def

text \<open>
  C3, as the code has it.  Both groupings return normally.  The resulting sets have
  pairwise distinct timestamps, one for every token that occurs in the input, and the
  members of a set are exactly the input records whose file name begins with the set's
  token, in input order.  So a record whose file name begins with a token is in exactly
  one set; a record whose file name does not is skipped and is in no set.
\<close>

theorem C3_matching_records_grouped_once:
  "(\<exists>sets. list_backup_sets site all_backups = Inr sets
      \<and> distinct (map timestamp sets)
      \<and> set (map timestamp sets) = set (tokens (map filename all_backups))
      \<and> (\<forall>s\<in>set sets.
            files s = filter (\<lambda>b. match_timestamp (filename b) = Some (timestamp s)) all_backups)
      \<and> (\<forall>b\<in>set all_backups.
            case match_timestamp (filename b) of
              None \<Rightarrow> \<forall>s\<in>set sets. b \<notin> set (files s)
            | Some t \<Rightarrow> \<exists>!s. s \<in> set sets \<and> b \<in> set (files s)))
   \<and> (\<exists>sets. get_local_backup_sets fromtimestamp local_backups = Inr sets
      \<and> distinct (map fst sets)
      \<and> set (map fst sets) = set (tokens (map fst local_backups))
      \<and> (\<forall>e\<in>set sets.
            timestamp (snd e) = fst e
          \<and> files (snd e) =
              map (\<lambda>x. local_backup_info fromtimestamp (fst x) (snd x))
                (filter (\<lambda>x. match_timestamp (fst x) = Some (fst e)) local_backups))
      \<and> (\<forall>x\<in>set local_backups.
            case match_timestamp (fst x) of
              None \<Rightarrow> \<forall>e\<in>set sets.
                        local_backup_info fromtimestamp (fst x) (snd x) \<notin> set (files (snd e))
            | Some t \<Rightarrow> \<exists>!e. e \<in> set sets
                        \<and> local_backup_info fromtimestamp (fst x) (snd x) \<in> set (files (snd e))))"
proof (rule conjI)
  from grouped_remote [of site all_backups] obtain unsorted where U:
    "list_backup_sets site all_backups = Inr (sorted_reverse BackupSet.created_at unsorted)"
    "map timestamp unsorted = first_seen (tokens (map filename all_backups))"
    "\<forall>s\<in>set unsorted.
        files s = filter (\<lambda>b. match_timestamp (filename b) = Some (timestamp s)) all_backups"
    by blast
  let ?sets = "sorted_reverse BackupSet.created_at unsorted"
  have st: "set ?sets = set unsorted" by (rule sorted_reverse_set)
  have d: "distinct (map timestamp ?sets)"
    using U(2) by (simp add: sorted_reverse_distinct_map first_seen_distinct)
  have "set (map timestamp ?sets) = set (map timestamp unsorted)"
    using st by simp
  then have k: "set (map timestamp ?sets) = set (tokens (map filename all_backups))"
    using U(2) by (simp add: first_seen_set)
  have f: "\<forall>s\<in>set ?sets.
        files s = filter (\<lambda>b. match_timestamp (filename b) = Some (timestamp s)) all_backups"
    using U(3) st by simp
  have m: "case match_timestamp (filename b) of
              None \<Rightarrow> \<forall>s\<in>set ?sets. b \<notin> set (files s)
            | Some t \<Rightarrow> \<exists>!s. s \<in> set ?sets \<and> b \<in> set (files s)"
    if b: "b \<in> set all_backups" for b
  proof (cases "match_timestamp (filename b)")
    case None
    then show ?thesis using f by auto
  next
    case (Some t)
    have "t \<in> set (tokens (map filename all_backups))"
      using b Some by (auto simp: tokens_set)
    then have "t \<in> timestamp ` set ?sets" using k by simp
    then obtain s where s: "s \<in> set ?sets" "timestamp s = t"
      by blast
    have "b \<in> set (files s)" using f s b Some by simp
    moreover have "s' = s" if "s' \<in> set ?sets" "b \<in> set (files s')" for s'
    proof -
      have "timestamp s' = t" using f that Some by auto
      then show ?thesis using d that(1) s by (metis distinct_map_unique)
    qed
    ultimately show ?thesis using Some s(1) by auto
  qed
  show "\<exists>sets. list_backup_sets site all_backups = Inr sets
      \<and> distinct (map timestamp sets)
      \<and> set (map timestamp sets) = set (tokens (map filename all_backups))
      \<and> (\<forall>s\<in>set sets.
            files s = filter (\<lambda>b. match_timestamp (filename b) = Some (timestamp s)) all_backups)
      \<and> (\<forall>b\<in>set all_backups.
            case match_timestamp (filename b) of
              None \<Rightarrow> \<forall>s\<in>set sets. b \<notin> set (files s)
            | Some t \<Rightarrow> \<exists>!s. s \<in> set sets \<and> b \<in> set (files s))"
    using U(1) d k f m by blast
next
  let ?mk = "\<lambda>x. local_backup_info fromtimestamp (fst x) (snd x)"
  from grouped_local [of fromtimestamp local_backups] obtain sets where L:
    "get_local_backup_sets fromtimestamp local_backups = Inr sets"
    "distinct (map fst sets)"
    "set (map fst sets) = set (tokens (map fst local_backups))"
    "\<forall>e\<in>set sets. timestamp (snd e) = fst e
         \<and> files (snd e) =
             map ?mk (filter (\<lambda>x. match_timestamp (fst x) = Some (fst e)) local_backups)"
    by blast
  have fn: "filename (?mk x) = fst x" for x
    by (simp add: local_backup_info_def)
  have inset: "match_timestamp (filename r) = Some (fst e)"
    if "e \<in> set sets" "r \<in> set (files (snd e))" for e r
  proof -
    from that L(4) obtain y where "r = ?mk y" "match_timestamp (fst y) = Some (fst e)"
      by auto
    then show ?thesis using fn by simp
  qed
  have m: "case match_timestamp (fst x) of
              None \<Rightarrow> \<forall>e\<in>set sets. ?mk x \<notin> set (files (snd e))
            | Some t \<Rightarrow> \<exists>!e. e \<in> set sets \<and> ?mk x \<in> set (files (snd e))"
    if x: "x \<in> set local_backups" for x
  proof (cases "match_timestamp (fst x)")
    case None
    have "?mk x \<notin> set (files (snd e))" if "e \<in> set sets" for e
      using inset [OF that, of "?mk x"] None fn by auto
    then show ?thesis using None by simp
  next
    case (Some t)
    have "t \<in> set (tokens (map fst local_backups))"
      using x Some by (auto simp: tokens_set)
    then have "t \<in> fst ` set sets" using L(3) by simp
    then obtain e where e: "e \<in> set sets" "fst e = t"
      by blast
    have "?mk x \<in> set (files (snd e))" using L(4) e x Some by auto
    moreover have "e' = e" if "e' \<in> set sets" "?mk x \<in> set (files (snd e'))" for e'
    proof -
      have "match_timestamp (filename (?mk x)) = Some (fst e')"
        using that by (rule inset)
      then have "fst e' = t" using Some fn by simp
      then show ?thesis using L(2) that(1) e by (metis distinct_map_unique)
    qed
    ultimately show ?thesis using Some e(1) by auto
  qed
  show "\<exists>sets. get_local_backup_sets fromtimestamp local_backups = Inr sets
      \<and> distinct (map fst sets)
      \<and> set (map fst sets) = set (tokens (map fst local_backups))
      \<and> (\<forall>e\<in>set sets.
            timestamp (snd e) = fst e
          \<and> files (snd e) =
              map ?mk (filter (\<lambda>x. match_timestamp (fst x) = Some (fst e)) local_backups))
      \<and> (\<forall>x\<in>set local_backups.
            case match_timestamp (fst x) of
              None \<Rightarrow> \<forall>e\<in>set sets. ?mk x \<notin> set (files (snd e))
            | Some t \<Rightarrow> \<exists>!e. e \<in> set sets \<and> ?mk x \<in> set (files (snd e)))"
    using L m by blast
qed

theorem C3_matching_records_grouped_once_witness:
  "list_backup_sets ''site''
     [\<lparr>filename = ''20250101_000000-site-database.sql.gz'', filepath = ''/b/1'',
       site_name = ''site'', backup_type = ''database'', created_at = 7, size_mb = 2,
       compressed = True, md5_hash = None\<rparr>,
      \<lparr>filename = ''manual_database.sql.gz'', filepath = ''/b/2'',
       site_name = ''site'', backup_type = ''database'', created_at = 9, size_mb = 3,
       compressed = True, md5_hash = None\<rparr>]
   = Inr [\<lparr>timestamp = ''20250101_000000'', site_name = ''site'', backup_type = ''database'',
           created_at = 7, total_size_mb = 2,
           files = [\<lparr>filename = ''20250101_000000-site-database.sql.gz'', filepath = ''/b/1'',
              site_name = ''site'', backup_type = ''database'', created_at = 7, size_mb = 2,
              compressed = True, md5_hash = None\<rparr>]\<rparr>]
   \<and> map fst (projr (get_local_backup_sets floor
     [(''20250101_000000-site-files.tar'',
         \<lparr>path = ''/l/f'', size_mb = 1, modified = 4, md5 = ''d41d''\<rparr>),
      (''notes.txt'', \<lparr>path = ''/l/notes.txt'', size_mb = 1, modified = 4, md5 = ''d41d''\<rparr>)]))
     = [''20250101_000000'']"
  using C3_matching_records_grouped_once [of "''site''"
     "[\<lparr>filename = ''20250101_000000-site-database.sql.gz'', filepath = ''/b/1'',
       site_name = ''site'', backup_type = ''database'', created_at = 7, size_mb = 2,
       compressed = True, md5_hash = None\<rparr>,
      \<lparr>filename = ''manual_database.sql.gz'', filepath = ''/b/2'',
       site_name = ''site'', backup_type = ''database'', created_at = 9, size_mb = 3,
       compressed = True, md5_hash = None\<rparr>]" floor
     "[(''20250101_000000-site-files.tar'',
         \<lparr>path = ''/l/f'', size_mb = 1, modified = 4, md5 = ''d41d''\<rparr>),
      (''notes.txt'', \<lparr>path = ''/l/notes.txt'', size_mb = 1, modified = 4, md5 = ''d41d''\<rparr>)]"]
  by (simp add: grouping_eval)


text \<open>
  C3 as stated fails: a record whose file name does not begin with a token is dropped by
  both groupings, instead of forming a singleton set.
\<close>

theorem C3_unmatched_record_dropped:
  "list_backup_sets ''site''
     [\<lparr>filename = ''manual_database.sql.gz'', filepath = ''/b/manual_database.sql.gz'',
       site_name = ''site'', backup_type = ''database'', created_at = 7, size_mb = 2,
       compressed = True, md5_hash = None\<rparr>] = Inr []
   \<and> get_local_backup_sets floor
     [(''notes.txt'', \<lparr>path = ''/l/notes.txt'', size_mb = 1, modified = 4, md5 = ''d41d''\<rparr>)]
     = Inr []"
  by (simp add: grouping_eval)

text \<open>
  C7.  \<^verbatim>\<open>list_backup_sets\<close> builds one set per token, in the order in which the tokens
  first occur in the input (the insertion order of the dict), and returns them sorted by
  \<^verbatim>\<open>created_at\<close>, newest first.  The sort is stable: the sets with the same \<^verbatim>\<open>created_at\<close>
  keep their insertion order.  Every set is non-empty, its \<^verbatim>\<open>created_at\<close> is the maximum
  over its members and its total size is the sum of its members' sizes.
\<close>

theorem C7_sets_newest_first:
  "\<exists>unsorted sets.
      remote_sets site (group_backups all_backups []) = Inr unsorted
    \<and> map timestamp unsorted = first_seen (tokens (map filename all_backups))
    \<and> list_backup_sets site all_backups = Inr sets
    \<and> newest_first sets
    \<and> mset sets = mset unsorted
    \<and> (\<forall>t. filter (\<lambda>s. BackupSet.created_at s = t) sets
           = filter (\<lambda>s. BackupSet.created_at s = t) unsorted)
    \<and> (\<forall>s\<in>set sets.
           files s \<noteq> []
         \<and> BackupSet.created_at s = Max (set (map BackupInfo.created_at (files s)))
         \<and> total_size_mb s = sum_list (map BackupInfo.size_mb (files s)))"
proof -
  from grouped_remote [of site all_backups] obtain unsorted where U:
    "remote_sets site (group_backups all_backups []) = Inr unsorted"
    "list_backup_sets site all_backups = Inr (sorted_reverse BackupSet.created_at unsorted)"
    "map timestamp unsorted = first_seen (tokens (map filename all_backups))"
    "\<forall>s\<in>set unsorted.
           files s \<noteq> []
         \<and> BackupSet.created_at s = Max (set (map BackupInfo.created_at (files s)))
         \<and> total_size_mb s = sum_list (map BackupInfo.size_mb (files s))"
    by blast
  let ?sets = "sorted_reverse BackupSet.created_at unsorted"
  have a: "newest_first ?sets"
    unfolding newest_first_def by (rule sorted_reverse_desc)
  have b: "mset ?sets = mset unsorted" by (rule sorted_reverse_mset)
  have c: "\<forall>t. filter (\<lambda>s. BackupSet.created_at s = t) ?sets
           = filter (\<lambda>s. BackupSet.created_at s = t) unsorted"
    by (simp add: sorted_reverse_stable)
  have d: "\<forall>s\<in>set ?sets.
           files s \<noteq> []
         \<and> BackupSet.created_at s = Max (set (map BackupInfo.created_at (files s)))
         \<and> total_size_mb s = sum_list (map BackupInfo.size_mb (files s))"
    using U(4) by (simp add: sorted_reverse_set)
  show ?thesis
    using U(1) U(2) U(3) a b c d by blast
qed

theorem C7_sets_newest_first_witness:
  "map (\<lambda>s. (timestamp s, BackupSet.created_at s, total_size_mb s))
     (projr (list_backup_sets ''site''
     [rec1 ''20250101_000000-site-database.sql.gz'' 5 2,
      rec1 ''20250102_000000-site-database.sql.gz'' 5 1,
      rec1 ''20250101_000000-site-files.tar'' 3 4,
      rec1 ''20250103_000000-site-database.sql.gz'' 9 1]))
   = [(''20250103_000000'', 9, 1), (''20250101_000000'', 5, 6), (''20250102_000000'', 5, 1)]"
  using C7_sets_newest_first [of "''site''" "[rec1 ''20250101_000000-site-database.sql.gz'' 5 2,
      rec1 ''20250102_000000-site-database.sql.gz'' 5 1,
      rec1 ''20250101_000000-site-files.tar'' 3 4,
      rec1 ''20250103_000000-site-database.sql.gz'' 9 1]"]
  by (simp add: grouping_eval rec1_def)

text \<open>
  \<^verbatim>\<open>TransferManager.get_local_backup_sets\<close> classifies a bucket by the presence of a
  database dump and of a files archive alone.
\<close>

lemma local_set_type_complete:
  "local_set_type backup_files =
     (if has_database backup_files \<and> has_files backup_files then ''complete''
      else if has_database backup_files then ''database''
      else if has_files backup_files then ''files''
      else ''mixed'')"
  by (simp add: local_set_type_def)

text \<open>
  C4.  A bucket with a database dump and a files archive is to be \<^verbatim>\<open>complete\<close>.
  \<^verbatim>\<open>BackupManager.list_backup_sets\<close> asks for a file whose name contains \<^verbatim>\<open>config\<close> as
  well: the bucket of \<^verbatim>\<open>20250101_000000_database.sql.gz\<close> and
  \<^verbatim>\<open>20250101_000000_public.tar\<close> is listed as \<^verbatim>\<open>mixed\<close>, where the local grouping of
  the same two file names says \<^verbatim>\<open>complete\<close>.
\<close>

theorem C4_database_and_files_listed_as_mixed:
  "list_backup_sets ''site''
     [rec1 ''20250101_000000_database.sql.gz'' 5 2, rec1 ''20250101_000000_public.tar'' 5 1]
   = Inr [\<lparr>timestamp = ''20250101_000000'', site_name = ''site'', backup_type = ''mixed'',
           created_at = 5, total_size_mb = 3,
           files = [rec1 ''20250101_000000_database.sql.gz'' 5 2,
                    rec1 ''20250101_000000_public.tar'' 5 1]\<rparr>]
   \<and> map (BackupSet.backup_type \<circ> snd) (projr (get_local_backup_sets floor
     [(''20250101_000000_database.sql.gz'',
         \<lparr>path = ''/l/d'', size_mb = 2, modified = 5, md5 = ''d41d''\<rparr>),
      (''20250101_000000_public.tar'',
         \<lparr>path = ''/l/p'', size_mb = 1, modified = 5, md5 = ''d41d''\<rparr>)]))
     = [''complete'']"
  by (simp add: grouping_eval rec1_def)

section \<open>Properties of the transfer engine\<close>

lemma emit_fields [simp]:
  "local_files (emit e w) = local_files w"
  "remote_paths (emit e w) = remote_paths w"
  "clock (emit e w) = clock w"
  "log (emit e w) = log w @ [e]"
  by (simp_all add: emit_def)

lemma sftp_gets_emit: "sftp_gets (emit e w) = (if is_get e then Suc (sftp_gets w) else sftp_gets w)"
  by (simp add: sftp_gets_def)

lemma sftp_gets_local_files [simp]: "sftp_gets (w\<lparr>local_files := f\<rparr>) = sftp_gets w"
  by (simp add: sftp_gets_def)

lemma get_remote_file_size_world:
  "get_remote_file_size env remote_path w = (r, w1) \<Longrightarrow> w1 = emit (ExecStat remote_path) w"
  by (auto simp: get_remote_file_size_def)

lemmas transfer_eval =
  download_backup_def resume_download_def upload_backup_def resolve_local_path_def
  recorded_size_def path_join_def path_name_def get_remote_file_size_def py_int_def
  emit_def strip_def isdigit_def is_digit_def is_space_def int_of_digits_def digit_value_def
  download_attempts.simps download_try_def download_file_with_progress_def sftp_gets_def
  verify_download_def sleep_def unlink_if_exists_def new_progress_def progress_callback_def
  update_def cancel_def resume_try_def append_local_def upload_try_def
  new_manager_def rec1_def empty_world_def world_with_def flaky_env_def
  attempt_fails_def attempt_error_def Let_def

text \<open>
  When the resolved local path exists and its size equals
  \<^verbatim>\<open>int(backup_info.size_mb * 1024 * 1024)\<close>, \<^verbatim>\<open>download_backup\<close> returns that path and
  leaves the world as it was: no command is run on the host, no SFTP call is made, no
  byte is read, no tracker is created.
\<close>

lemma download_short_circuit:
  assumes "local_files w (resolve_local_path tm backup_info local_filename) = Some bs"
      and "int (length bs) = recorded_size backup_info"
  shows "download_backup tm env backup_info local_filename has_cb w =
           (Inr (resolve_local_path tm backup_info local_filename), w, None)"
  using assms by (simp add: download_backup_def)

lemma download_short_circuit_example:
  "download_backup (new_manager ''/l'') (flaky_env ''10485'')
      (rec1 ''20250101_000000-site-files.tar'' 5 (1 / 100)) None True
      (world_with ''/l/20250101_000000-site-files.tar'' (replicate 10485 CHR ''x''))
   = (Inr ''/l/20250101_000000-site-files.tar'',
      world_with ''/l/20250101_000000-site-files.tar'' (replicate 10485 CHR ''x''), None)"
proof -
  have p: "resolve_local_path (new_manager ''/l'')
             (rec1 ''20250101_000000-site-files.tar'' 5 (1 / 100)) None
           = ''/l/20250101_000000-site-files.tar''"
    by (simp add: resolve_local_path_def new_manager_def rec1_def path_join_def)
  have f: "local_files (world_with ''/l/20250101_000000-site-files.tar'' (replicate 10485 CHR ''x''))
             ''/l/20250101_000000-site-files.tar'' = Some (replicate 10485 CHR ''x'')"
    by (simp add: world_with_def)
  have s: "int (length (replicate 10485 CHR ''x''))
           = recorded_size (rec1 ''20250101_000000-site-files.tar'' 5 (1 / 100))"
    by (simp add: recorded_size_def rec1_def py_int_def floor_eq_iff)
  show ?thesis
    using download_short_circuit
            [of "world_with ''/l/20250101_000000-site-files.tar'' (replicate 10485 CHR ''x'')"
                "new_manager ''/l''" "rec1 ''20250101_000000-site-files.tar'' 5 (1 / 100)"
                None "replicate 10485 CHR ''x''" "flaky_env ''10485''" True]
          p f s
    by simp
qed

text \<open>
  That size is derived from \<^verbatim>\<open>size_mb\<close>, which \<^verbatim>\<open>_parse_backup_info\<close> rounds to two
  decimals, so it is the size of the remote file only by accident.  For a remote file
  of 6 bytes the record says \<^verbatim>\<open>size_mb = 0.0\<close>.
\<close>

lemma parse_size_mb_6: "parse_size_mb 6 = 0"
proof -
  have "\<lfloor>(75::rat) / 131072\<rfloor> = 0" by (simp add: floor_eq_iff)
  then show ?thesis by (simp add: parse_size_mb_def py_round2_def Let_def)
qed

lemmas transfer_eval_listed = transfer_eval steady_env_def opens_ok_def listed_def parse_size_mb_6

lemma download_again_when_recorded_size_differs:
  "sftp_gets (fst (snd (download_backup (new_manager ''/l'') (flaky_env ''1000'')
      (rec1 ''f.tar'' 5 0) None True (world_with ''/l/f.tar'' (replicate 1000 CHR ''x'')))))
   = 3"
  by (simp add: transfer_eval)

text \<open>
  C5.  A second download of a record whose file is already there, complete, is to read
  nothing.  \<^verbatim>\<open>download_backup\<close> compares the local size with the size derived from
  the rounded \<^verbatim>\<open>size_mb\<close>, not with the size of the remote file.  The record listed for
  a 6-byte remote file is downloaded: the call returns the path and leaves the 6 bytes.
  Downloading the same record again does not meet the check (6 is not 0): the size
  query and the whole transfer run a second time.
\<close>

theorem C5_second_download_fetches_again:
  "download_backup (new_manager ''/l'') (steady_env ''abcdef'') (listed ''f.tar'' 5 6) None True
       empty_world
     = (Inr ''/l/f.tar'',
        \<lparr>local_files = [''/l/f.tar'' \<mapsto> ''abcdef''], remote_paths = [], clock = 0,
         log = [ExecStat ''/b/f.tar'', SftpGet ''/b/f.tar'' ''/l/f.tar'']\<rparr>,
        Some \<lparr>total_size = 6, transferred = 6, start_time = 0, has_callback = True,
              cancelled = False, calls = [6]\<rparr>)
   \<and> BackupInfo.size_mb (listed ''f.tar'' 5 6) = 0
   \<and> fst (download_backup (new_manager ''/l'') (steady_env ''abcdef'') (listed ''f.tar'' 5 6)
            None True
            \<lparr>local_files = [''/l/f.tar'' \<mapsto> ''abcdef''], remote_paths = [], clock = 0,
             log = [ExecStat ''/b/f.tar'', SftpGet ''/b/f.tar'' ''/l/f.tar'']\<rparr>)
     = Inr ''/l/f.tar''
   \<and> log (fst (snd (download_backup (new_manager ''/l'') (steady_env ''abcdef'')
            (listed ''f.tar'' 5 6) None True
            \<lparr>local_files = [''/l/f.tar'' \<mapsto> ''abcdef''], remote_paths = [], clock = 0,
             log = [ExecStat ''/b/f.tar'', SftpGet ''/b/f.tar'' ''/l/f.tar'']\<rparr>)))
     = [ExecStat ''/b/f.tar'', SftpGet ''/b/f.tar'' ''/l/f.tar'',
        ExecStat ''/b/f.tar'', SftpGet ''/b/f.tar'' ''/l/f.tar'']"
  by (simp add: transfer_eval_listed)



text \<open>
  C6.  For an existing local file and a remote size the host reports: when the local file
  is strictly larger, \<^verbatim>\<open>resume_download\<close> raises
  \<^verbatim>\<open>TransferError("Local file is larger than remote file")\<close>; when the sizes are equal, it
  returns the local path.  In both cases the only effect is the size query: the local
  files are as they were, nothing is transferred, no tracker is created.
\<close>

theorem C6_resume_larger_or_complete:
  assumes "local_files w local_path = Some bs"
      and "get_remote_file_size env (filepath backup_info) w = (Some remote_size, w1)"
  shows "(remote_size < length bs \<longrightarrow>
            resume_download tm env backup_info local_path has_cb w
              = (Inl TE_LocalLarger, w1, None))
       \<and> (remote_size = length bs \<longrightarrow>
            resume_download tm env backup_info local_path has_cb w
              = (Inr local_path, w1, None))
       \<and> local_files w1 = local_files w
       \<and> log w1 = log w @ [ExecStat (filepath backup_info)]"
  using assms get_remote_file_size_world [OF assms(2)]
  by (simp add: resume_download_def)

theorem C6_resume_larger_or_complete_witness:
  "resume_download (new_manager ''/l'') (flaky_env ''2'') (rec1 ''f.tar'' 5 0) ''/l/f.tar'' True
       (world_with ''/l/f.tar'' ''abc'')
     = (Inl TE_LocalLarger, emit (ExecStat ''/b/f.tar'') (world_with ''/l/f.tar'' ''abc''), None)
   \<and> resume_download (new_manager ''/l'') (flaky_env ''3'') (rec1 ''f.tar'' 5 0) ''/l/f.tar'' True
       (world_with ''/l/f.tar'' ''abc'')
     = (Inr ''/l/f.tar'', emit (ExecStat ''/b/f.tar'') (world_with ''/l/f.tar'' ''abc''), None)
   \<and> local_files (emit (ExecStat ''/b/f.tar'') (world_with ''/l/f.tar'' ''abc'')) ''/l/f.tar''
     = Some ''abc''"
proof -
  let ?w = "world_with ''/l/f.tar'' ''abc''"
  let ?w1 = "emit (ExecStat ''/b/f.tar'') ?w"
  have f: "local_files ?w ''/l/f.tar'' = Some ''abc''"
    by (simp add: world_with_def)
  have fp: "filepath (rec1 ''f.tar'' 5 0) = ''/b/f.tar''"
    by (simp add: rec1_def)
  have s2: "get_remote_file_size (flaky_env ''2'') (filepath (rec1 ''f.tar'' 5 0)) ?w
              = (Some 2, ?w1)"
    by (simp add: get_remote_file_size_def flaky_env_def rec1_def strip_def isdigit_def
          is_digit_def is_space_def int_of_digits_def digit_value_def)
  have s3: "get_remote_file_size (flaky_env ''3'') (filepath (rec1 ''f.tar'' 5 0)) ?w
              = (Some 3, ?w1)"
    by (simp add: get_remote_file_size_def flaky_env_def rec1_def strip_def isdigit_def
          is_digit_def is_space_def int_of_digits_def digit_value_def)
  show ?thesis
    using C6_resume_larger_or_complete [OF f s2, of "new_manager ''/l''" True]
          C6_resume_larger_or_complete [OF f s3, of "new_manager ''/l''" True] f
    by simp
qed


lemma sftp_gets_sleep_unlink:
  "sftp_gets (unlink_if_exists lp (sleep d w)) = sftp_gets w"
  by (simp add: unlink_if_exists_def sleep_def sftp_gets_def emit_def split: option.splits)

lemma local_files_sleep_unlink:
  "local_files (unlink_if_exists lp (sleep d w)) lp = None"
  by (simp add: unlink_if_exists_def sleep_def emit_def split: option.splits)

lemma download_try_fails:
  assumes "attempt_fails rs (get_script env (sftp_gets w))"
  shows "\<exists>w1 p1. download_try env rp lp rs w p
                    = (Inl (attempt_error (get_script env (sftp_gets w))), w1, p1)
           \<and> sftp_gets w1 = Suc (sftp_gets w)
           \<and> local_files w1 lp =
               (case written (get_script env (sftp_gets w)) of
                  Some bs \<Rightarrow> Some bs | None \<Rightarrow> local_files w lp)"
  using assms
  by (auto simp: download_try_def download_file_with_progress_def attempt_fails_def
        attempt_error_def verify_download_def sftp_gets_emit Let_def
        split: option.splits)

lemma download_attempts_exhausted:
  assumes "attempt < max_retries tm"
      and "\<forall>i. attempt + i < max_retries tm \<longrightarrow>
                attempt_fails rs (get_script env (sftp_gets w + i))"
  shows "\<exists>w' p'. download_attempts tm env rp lp rs attempt w p
           = (Inl (TE_DownloadFailedAfter (max_retries tm)
                    (attempt_error
                       (get_script env (sftp_gets w + (max_retries tm - attempt - 1))))),
              w', p')
         \<and> sftp_gets w' = sftp_gets w + (max_retries tm - attempt)
         \<and> local_files w' lp =
             (case written (get_script env (sftp_gets w + (max_retries tm - attempt - 1))) of
                Some bs \<Rightarrow> Some bs
              | None \<Rightarrow> if max_retries tm - attempt = 1 then local_files w lp else None)"
  using assms
proof (induction "max_retries tm - attempt" arbitrary: attempt w p)
  case 0
  then show ?case by simp
next
  case (Suc d)
  have f0: "attempt_fails rs (get_script env (sftp_gets w))"
    using Suc.prems(2) [rule_format, of 0] Suc.prems(1) by simp
  from download_try_fails [OF f0, of rp lp p] obtain w1 p1 where T:
    "download_try env rp lp rs w p = (Inl (attempt_error (get_script env (sftp_gets w))), w1, p1)"
    "sftp_gets w1 = Suc (sftp_gets w)"
    "local_files w1 lp =
       (case written (get_script env (sftp_gets w)) of
          Some bs \<Rightarrow> Some bs | None \<Rightarrow> local_files w lp)"
    by blast
  show ?case
  proof (cases "Suc attempt < max_retries tm")
    case False
    then have last: "max_retries tm - attempt = 1" using Suc.prems(1) by simp
    have "download_attempts tm env rp lp rs attempt w p
            = (Inl (TE_DownloadFailedAfter (max_retries tm)
                      (attempt_error (get_script env (sftp_gets w)))), w1, p1)"
      using T(1) False Suc.prems(1)
      by (subst download_attempts.simps) simp
    then show ?thesis using T(2) T(3) last by simp
  next
    case True
    let ?w2 = "unlink_if_exists lp (sleep (retry_delay tm) w1)"
    have g2: "sftp_gets ?w2 = Suc (sftp_gets w)"
      using T(2) by (simp add: sftp_gets_sleep_unlink)
    have d: "d = max_retries tm - Suc attempt" using Suc.hyps(2) by simp
    have fails2: "\<forall>i. Suc attempt + i < max_retries tm \<longrightarrow>
                    attempt_fails rs (get_script env (sftp_gets ?w2 + i))"
    proof (intro allI impI)
      fix i assume "Suc attempt + i < max_retries tm"
      then have "attempt + Suc i < max_retries tm" by simp
      then have "attempt_fails rs (get_script env (sftp_gets w + Suc i))"
        using Suc.prems(2) by blast
      then show "attempt_fails rs (get_script env (sftp_gets ?w2 + i))"
        using g2 by simp
    qed
    from Suc.hyps(1) [OF d True fails2, of p1] obtain w' p' where R:
      "download_attempts tm env rp lp rs (Suc attempt) ?w2 p1
         = (Inl (TE_DownloadFailedAfter (max_retries tm)
                  (attempt_error
                     (get_script env (sftp_gets ?w2 + (max_retries tm - Suc attempt - 1))))),
            w', p')"
      "sftp_gets w' = sftp_gets ?w2 + (max_retries tm - Suc attempt)"
      "local_files w' lp =
         (case written (get_script env (sftp_gets ?w2 + (max_retries tm - Suc attempt - 1))) of
            Some bs \<Rightarrow> Some bs
          | None \<Rightarrow> if max_retries tm - Suc attempt = 1 then local_files ?w2 lp else None)"
      by blast
    have idx: "sftp_gets ?w2 + (max_retries tm - Suc attempt - 1)
                 = sftp_gets w + (max_retries tm - attempt - 1)"
      using g2 True by simp
    have unf: "download_attempts tm env rp lp rs attempt w p
                 = download_attempts tm env rp lp rs (Suc attempt) ?w2 p1"
      using T(1) True Suc.prems(1)
      by (subst download_attempts.simps) simp
    have cnt: "sftp_gets w' = sftp_gets w + (max_retries tm - attempt)"
      using R(2) g2 True by simp
    have two: "max_retries tm - attempt \<noteq> 1" using True by simp
    have fl: "local_files w' lp =
             (case written (get_script env (sftp_gets w + (max_retries tm - attempt - 1))) of
                Some bs \<Rightarrow> Some bs
              | None \<Rightarrow> if max_retries tm - attempt = 1 then local_files w lp else None)"
    proof (cases "written (get_script env (sftp_gets w + (max_retries tm - attempt - 1)))")
      case None
      then have "local_files w' lp = None"
        using R(3) [unfolded idx] by (simp add: local_files_sleep_unlink)
      then show ?thesis using None two by simp
    next
      case (Some bs)
      then have "local_files w' lp = Some bs"
        using R(3) [unfolded idx] by simp
      then show ?thesis using Some by simp
    qed
    have res: "download_attempts tm env rp lp rs attempt w p
         = (Inl (TE_DownloadFailedAfter (max_retries tm)
                  (attempt_error
                     (get_script env (sftp_gets w + (max_retries tm - attempt - 1))))),
            w', p')"
      using unf R(1) [unfolded idx] by simp
    show ?thesis
      using res cnt fl by blast
  qed
qed

text \<open>
  C1, as the code has it.  Let the download not be short-circuited, the remote size be
  known, the maximum number of attempts be positive, and every attempt fail (the transfer
  raises, or leaves a file of the wrong size).  Then \<^verbatim>\<open>download_backup\<close> raises
  \<^verbatim>\<open>TransferError("Download failed after n attempts: e")\<close> with \<open>e\<close> the error of the last
  attempt, after exactly \<open>n\<close> transfers.  The destination then holds what the last attempt
  left there: its partial file if it wrote one, and otherwise nothing (or, when there was
  a single attempt, whatever was there before), because the partial file is deleted only
  before a retry.
\<close>

theorem C1_download_exhausts_retries:
  assumes "\<not> (case local_files w (resolve_local_path tm backup_info local_filename) of
                None \<Rightarrow> False
              | Some bs \<Rightarrow> int (length bs) = recorded_size backup_info)"
      and "get_remote_file_size env (filepath backup_info) w = (Some remote_size, w1)"
      and "0 < max_retries tm"
      and "\<forall>i<max_retries tm. attempt_fails remote_size (get_script env (sftp_gets w + i))"
  shows "\<exists>w' p'.
           download_backup tm env backup_info local_filename has_cb w
             = (Inl (TE_DownloadFailedAfter (max_retries tm)
                      (attempt_error (get_script env (sftp_gets w + (max_retries tm - 1))))),
                w', Some p')
         \<and> sftp_gets w' = sftp_gets w + max_retries tm
         \<and> local_files w' (resolve_local_path tm backup_info local_filename) =
             (case written (get_script env (sftp_gets w + (max_retries tm - 1))) of
                Some bs \<Rightarrow> Some bs
              | None \<Rightarrow>
                  if max_retries tm = 1
                  then local_files w (resolve_local_path tm backup_info local_filename)
                  else None)"
proof -
  let ?lp = "resolve_local_path tm backup_info local_filename"
  have w1: "w1 = emit (ExecStat (filepath backup_info)) w"
    using assms(2) by (rule get_remote_file_size_world)
  have g1: "sftp_gets w1 = sftp_gets w" by (simp add: w1 sftp_gets_emit)
  have f1: "local_files w1 = local_files w" by (simp add: w1)
  have fails: "\<forall>i. 0 + i < max_retries tm \<longrightarrow>
                 attempt_fails remote_size (get_script env (sftp_gets w1 + i))"
    using assms(4) g1 by simp
  from download_attempts_exhausted [OF assms(3) fails,
         of "filepath backup_info" ?lp "new_progress (int remote_size) has_cb (clock w1)"]
  obtain w' p' where R:
    "download_attempts tm env (filepath backup_info) ?lp remote_size 0 w1
        (new_progress (int remote_size) has_cb (clock w1))
       = (Inl (TE_DownloadFailedAfter (max_retries tm)
                (attempt_error (get_script env (sftp_gets w1 + (max_retries tm - 0 - 1))))),
          w', p')"
    "sftp_gets w' = sftp_gets w1 + (max_retries tm - 0)"
    "local_files w' ?lp =
       (case written (get_script env (sftp_gets w1 + (max_retries tm - 0 - 1))) of
          Some bs \<Rightarrow> Some bs
        | None \<Rightarrow> if max_retries tm - 0 = 1 then local_files w1 ?lp else None)"
    by blast
  have "download_backup tm env backup_info local_filename has_cb w
          = (Inl (TE_DownloadFailedAfter (max_retries tm)
                   (attempt_error (get_script env (sftp_gets w + (max_retries tm - 1))))),
             w', Some p')"
    using assms(1) assms(2) R(1) g1 by (simp add: download_backup_def)
  moreover have "sftp_gets w' = sftp_gets w + max_retries tm"
    using R(2) g1 by simp
  moreover have "local_files w' ?lp =
             (case written (get_script env (sftp_gets w + (max_retries tm - 1))) of
                Some bs \<Rightarrow> Some bs
              | None \<Rightarrow> if max_retries tm = 1 then local_files w ?lp else None)"
    using R(3) g1 f1 by (simp split: option.splits)
  ultimately show ?thesis by blast
qed

theorem C1_download_exhausts_retries_witness:
  "fst (download_backup (new_manager ''/l'') (flaky_env ''6'') (rec1 ''f.tar'' 5 2) None True
          empty_world)
     = Inl (TE_DownloadFailedAfter 3 (TE_SftpFailed (EnvError ''reset'')))
   \<and> sftp_gets (fst (snd (download_backup (new_manager ''/l'') (flaky_env ''6'')
          (rec1 ''f.tar'' 5 2) None True empty_world))) = 3
   \<and> max_retries (new_manager ''/l'') = 3"
proof -
  have a: "\<not> (case local_files empty_world
                   (resolve_local_path (new_manager ''/l'') (rec1 ''f.tar'' 5 2) None) of
                None \<Rightarrow> False
              | Some bs \<Rightarrow> int (length bs) = recorded_size (rec1 ''f.tar'' 5 2))"
    by (simp add: empty_world_def)
  have b: "get_remote_file_size (flaky_env ''6'') (filepath (rec1 ''f.tar'' 5 2)) empty_world
             = (Some 6, emit (ExecStat ''/b/f.tar'') empty_world)"
    by (simp add: get_remote_file_size_def flaky_env_def rec1_def strip_def isdigit_def
          is_digit_def is_space_def int_of_digits_def digit_value_def)
  have c: "0 < max_retries (new_manager ''/l'')"
    by (simp add: new_manager_def)
  have d: "\<forall>i<max_retries (new_manager ''/l'').
             attempt_fails 6 (get_script (flaky_env ''6'') (sftp_gets empty_world + i))"
    by (simp add: attempt_fails_def flaky_env_def)
  have m: "max_retries (new_manager ''/l'') = 3" by (simp add: new_manager_def)
  have e: "attempt_error (get_script (flaky_env ''6'') k) = TE_SftpFailed (EnvError ''reset'')"
    for k by (simp add: attempt_error_def flaky_env_def)
  have g: "sftp_gets empty_world = 0" by (simp add: sftp_gets_def empty_world_def)
  show ?thesis
    using C1_download_exhausts_retries [OF a b c d, where has_cb = True] m e g
    by auto
qed

text \<open>
  C1 as stated fails: after the error, the partial file of the last attempt is still at
  the destination.
\<close>

theorem C1_partial_file_left_behind:
  "fst (download_backup (new_manager ''/l'') (flaky_env ''6'') (rec1 ''f.tar'' 5 2) None True
          empty_world)
     = Inl (TE_DownloadFailedAfter 3 (TE_SftpFailed (EnvError ''reset'')))
   \<and> local_files (fst (snd (download_backup (new_manager ''/l'') (flaky_env ''6'')
          (rec1 ''f.tar'' 5 2) None True empty_world))) ''/l/f.tar'' = Some ''ab''"
  by (simp add: transfer_eval)


lemma resume_loop_effects:
  "local_files w lp = Some bs \<Longrightarrow>
   \<exists>e w' p' k more.
      resume_loop lp rs w p = (e, w', p')
    \<and> log w' = log w @ replicate k RemoteRead
    \<and> local_files w' lp = Some (bs @ more)"
proof (induction lp rs w p arbitrary: bs rule: resume_loop.induct)
  case (1 lp w p)
  then show ?case
    by (simp add: exI [of _ "Suc 0"])
next
  case (2 lp m rest w p)
  then show ?case
    by (simp add: exI [of _ "Suc 0"])
next
  case (3 lp m rest w p)
  then show ?case
    by (simp add: exI [of _ "Suc 0"])
next
  case (4 lp chunk cp rest w p)
  show ?case
  proof (cases "chunk = []")
    case True
    then show ?thesis using "4.prems" by (simp add: exI [of _ "Suc 0"])
  next
    case False
    let ?w1 = "append_local lp chunk (emit RemoteRead w)"
    let ?p1 = "update (int (length chunk)) (if cp = BeforeUpdate then cancel p else p)"
    let ?p2 = "if cp = AfterUpdate then cancel ?p1 else ?p1"
    have f1: "local_files ?w1 lp = Some (bs @ chunk)"
      using "4.prems" by (simp add: append_local_def)
    have l1: "log ?w1 = log w @ [RemoteRead]"
      by (simp add: append_local_def)
    show ?thesis
    proof (cases "cancelled ?p2")
      case True
      have "resume_loop lp (Chunk chunk cp # rest) w p = (Some TE_Cancelled, ?w1, ?p2)"
        using False True by (simp add: Let_def)
      moreover have "log ?w1 = log w @ replicate (Suc 0) RemoteRead" using l1 by simp
      ultimately show ?thesis using f1 by blast
    next
      case nc: False
      from "4.IH" [OF False refl refl refl nc f1] obtain e w' p' k more where R:
        "resume_loop lp rest ?w1 ?p2 = (e, w', p')"
        "log w' = log ?w1 @ replicate k RemoteRead"
        "local_files w' lp = Some ((bs @ chunk) @ more)"
        by blast
      have a: "resume_loop lp (Chunk chunk cp # rest) w p = (e, w', p')"
        using False nc R(1) by (simp add: Let_def)
      have b: "log w' = log w @ replicate (Suc k) RemoteRead"
        using R(2) l1 by simp
      have c: "local_files w' lp = Some (bs @ (chunk @ more))"
        using R(3) by simp
      show ?thesis using a b c by blast
    qed
  qed
next
  case (5 lp chunk m rest w p)
  show ?case
  proof (cases "chunk = []")
    case True
    then show ?thesis using "5.prems" by (simp add: exI [of _ "Suc 0"])
  next
    case False
    let ?w1 = "append_local lp chunk (emit RemoteRead w)"
    let ?p1 = "update (int (length chunk)) p"
    have f1: "local_files ?w1 lp = Some (bs @ chunk)"
      using "5.prems" by (simp add: append_local_def)
    have l1: "log ?w1 = log w @ replicate (Suc 0) RemoteRead"
      by (simp add: append_local_def)
    show ?thesis
    proof (cases "has_callback p \<and> \<not> cancelled p")
      case True
      have "resume_loop lp (ObserverFails chunk m # rest) w p = (Some (EnvError m), ?w1, ?p1)"
        using False True by (simp add: Let_def)
      then show ?thesis using f1 l1 by blast
    next
      case quiet: False
      show ?thesis
      proof (cases "cancelled ?p1")
        case True
        have "resume_loop lp (ObserverFails chunk m # rest) w p = (Some TE_Cancelled, ?w1, ?p1)"
          using False quiet True by (auto simp: Let_def)
        then show ?thesis using f1 l1 by blast
      next
        case nc: False
        from "5.IH" [OF False refl refl quiet nc f1] obtain e w' p' k more where R:
          "resume_loop lp rest ?w1 ?p1 = (e, w', p')"
          "log w' = log ?w1 @ replicate k RemoteRead"
          "local_files w' lp = Some ((bs @ chunk) @ more)"
          by blast
        have a: "resume_loop lp (ObserverFails chunk m # rest) w p = (e, w', p')"
          using False quiet nc R(1) by (auto simp: Let_def)
        have b: "log w' = log w @ replicate (Suc k) RemoteRead"
          using R(2) l1 by simp
        have c: "local_files w' lp = Some (bs @ (chunk @ more))"
          using R(3) by simp
        show ?thesis using a b c by blast
      qed
    qed
  qed
qed

lemma resume_try_effects:
  assumes "local_files w lp = Some bs"
  shows "\<exists>r w' p' k more.
      resume_try env lp rs w p = (r, w', p')
    \<and> log w' = log w @ SftpSession # replicate k RemoteRead
    \<and> local_files w' lp = Some (bs @ more)
    \<and> (\<forall>path. r = Inr path \<longrightarrow> path = lp \<and> length (bs @ more) = rs)"
proof -
  let ?s = "resume_script env"
  let ?w1 = "emit SftpSession w"
  have early: "\<exists>r w' p' k more.
      (Inl x, ?w1, p) = (r, w', p')
    \<and> log w' = log w @ SftpSession # replicate k RemoteRead
    \<and> local_files w' lp = Some (bs @ more)
    \<and> (\<forall>path. r = Inr path \<longrightarrow> path = lp \<and> length (bs @ more) = rs)" for x :: exc
    using assms
    by (intro exI [of _ "Inl x"] exI [of _ ?w1] exI [of _ p] exI [of _ 0] exI [of _ "[]"]) simp
  show ?thesis
  proof (cases "connect_error ?s = None \<and> local_open_error ?s = None
                 \<and> remote_open_error ?s = None")
    case False
    then show ?thesis
      using early by (auto simp: resume_try_def Let_def split: option.splits)
  next
    case True
    have f1: "local_files ?w1 lp = Some bs" using assms by simp
    from resume_loop_effects [OF f1, of "reads ?s" p] obtain e w2 p2 k more where L:
      "resume_loop lp (reads ?s) ?w1 p = (e, w2, p2)"
      "log w2 = log ?w1 @ replicate k RemoteRead"
      "local_files w2 lp = Some (bs @ more)"
      by blast
    have lg: "log w2 = log w @ SftpSession # replicate k RemoteRead"
      using L(2) by simp
    have "\<exists>r. resume_try env lp rs w p = (r, w2, p2)
             \<and> (\<forall>path. r = Inr path \<longrightarrow> path = lp \<and> length (bs @ more) = rs)"
      using True L(1) L(3)
      by (auto simp: resume_try_def Let_def verify_download_def split: option.splits)
    then show ?thesis using lg L(3) by blast
  qed
qed

lemma download_attempts_error:
  "download_attempts tm env rp lp rs attempt w p = (Inl e, w', p') \<Longrightarrow> is_TransferError e"
proof (induction tm env rp lp rs attempt w p rule: download_attempts.induct)
  case (1 tm env rp lp rs attempt w p)
  show ?case
  proof (cases "max_retries tm \<le> attempt")
    case True
    then show ?thesis using "1.prems" by (simp add: download_attempts.simps)
  next
    case False
    obtain r w1 p1 where T: "download_try env rp lp rs w p = (r, w1, p1)"
      by (metis prod_cases3)
    show ?thesis
    proof (cases r)
      case (Inr path)
      then show ?thesis
        using "1.prems" False T by (simp add: download_attempts.simps)
    next
      case (Inl x)
      show ?thesis
      proof (cases "int attempt < int (max_retries tm) - 1")
        case True
        have "download_attempts tm env rp lp rs (Suc attempt)
                (unlink_if_exists lp (sleep (retry_delay tm) w1)) p1 = (Inl e, w', p')"
          using "1.prems" False T Inl True
          by (subst (asm) download_attempts.simps) simp
        then show ?thesis
          using "1.IH" [OF False T [symmetric] Inl refl True] by simp
      next
        case nl: False
        then show ?thesis
          using "1.prems" False T Inl
          by (subst (asm) download_attempts.simps) auto
      qed
    qed
  qed
qed

lemma download_backup_error:
  "fst (download_backup tm env backup_info local_filename has_cb w) = Inl e
     \<Longrightarrow> is_TransferError e"
proof -
  assume a: "fst (download_backup tm env backup_info local_filename has_cb w) = Inl e"
  let ?lp = "resolve_local_path tm backup_info local_filename"
  obtain rsz w1 where S: "get_remote_file_size env (filepath backup_info) w = (rsz, w1)"
    by (metis prod.collapse)
  show ?thesis
  proof (cases "case local_files w ?lp of None \<Rightarrow> False
                | Some bs \<Rightarrow> int (length bs) = recorded_size backup_info")
    case True
    then show ?thesis using a by (simp add: download_backup_def)
  next
    case False
    show ?thesis
    proof (cases rsz)
      case None
      then show ?thesis using a False S by (auto simp: download_backup_def)
    next
      case (Some remote_size)
      obtain r w2 p2 where D:
        "download_attempts tm env (filepath backup_info) ?lp remote_size 0 w1
           (new_progress (int remote_size) has_cb (clock w1)) = (r, w2, p2)"
        by (metis prod_cases3)
      have "r = Inl e" using a False S Some D by (simp add: download_backup_def)
      then show ?thesis using D download_attempts_error by blast
    qed
  qed
qed

lemma update_cancelled: "cancelled (update d p) = cancelled p"
  by (simp add: update_def Let_def)

lemma resume_loop_plain:
  "plain_chunks pre \<Longrightarrow> \<not> cancelled p \<Longrightarrow> local_files w lp = Some bs \<Longrightarrow>
   \<exists>w1 p1. (\<forall>tail. resume_loop lp (pre @ tail) w p = resume_loop lp tail w1 p1)
     \<and> log w1 = log w @ replicate (length pre) RemoteRead
     \<and> local_files w1 lp = Some (bs @ chunk_data pre)
     \<and> \<not> cancelled p1"
proof (induction pre arbitrary: w p bs rule: plain_chunks.induct)
  case 1
  then show ?case
    by (intro exI [of _ w] exI [of _ p]) simp
next
  case (2 c cp rest)
  let ?w1 = "append_local lp c (emit RemoteRead w)"
  let ?p1 = "update (int (length c)) p"
  from "2.prems" have c: "c \<noteq> []" "cp = Never" "plain_chunks rest" by simp_all
  have nc: "\<not> cancelled ?p1" using "2.prems"(2) by (simp add: update_cancelled)
  have f1: "local_files ?w1 lp = Some (bs @ c)"
    using "2.prems"(3) by (simp add: append_local_def)
  have l1: "log ?w1 = log w @ [RemoteRead]" by (simp add: append_local_def)
  from "2.IH" [OF c(3) nc f1] obtain w2 p2 where R:
    "\<forall>tail. resume_loop lp (rest @ tail) ?w1 ?p1 = resume_loop lp tail w2 p2"
    "log w2 = log ?w1 @ replicate (length rest) RemoteRead"
    "local_files w2 lp = Some ((bs @ c) @ chunk_data rest)"
    "\<not> cancelled p2"
    by blast
  have step: "resume_loop lp ((Chunk c cp # rest) @ tail) w p = resume_loop lp tail w2 p2" for tail
    using c nc R(1) by (simp add: Let_def)
  have lg: "log w2 = log w @ replicate (length (Chunk c cp # rest)) RemoteRead"
    using R(2) l1 by (simp add: replicate_append_same)
  have fl: "local_files w2 lp = Some (bs @ chunk_data (Chunk c cp # rest))"
    using R(3) by simp
  show ?case using step lg fl R(4) by blast
qed simp_all


lemma resume_try_io_failure:
  assumes "local_files w lp = Some bs" and "\<not> cancelled p"
      and "opens_ok (resume_script env)"
      and "reads (resume_script env) = pre @ ev # rest"
      and "plain_chunks pre" and "io_failure ev = Some m"
  shows "\<exists>w' p'. resume_try env lp rs w p = (Inl (EnvError m), w', p')
           \<and> log w' = log w @ SftpSession # replicate (Suc (length pre)) RemoteRead
           \<and> local_files w' lp = Some (bs @ chunk_data pre)"
proof -
  let ?w0 = "emit SftpSession w"
  have f0: "local_files ?w0 lp = Some bs" using assms(1) by simp
  from resume_loop_plain [OF assms(5) assms(2) f0] obtain w1 p1 where P:
    "\<forall>tail. resume_loop lp (pre @ tail) ?w0 p = resume_loop lp tail w1 p1"
    "log w1 = log ?w0 @ replicate (length pre) RemoteRead"
    "local_files w1 lp = Some (bs @ chunk_data pre)"
    by blast
  have tail: "resume_loop lp (ev # rest) w1 p1 = (Some (EnvError m), emit RemoteRead w1, p1)"
    using assms(6) by (cases ev) simp_all
  have loop: "resume_loop lp (reads (resume_script env)) ?w0 p
                = (Some (EnvError m), emit RemoteRead w1, p1)"
    using P(1) tail assms(4) by simp
  have "resume_try env lp rs w p = (Inl (EnvError m), emit RemoteRead w1, p1)"
    using assms(3) loop by (simp add: resume_try_def opens_ok_def Let_def)
  moreover have "log (emit RemoteRead w1)
                   = log w @ SftpSession # replicate (Suc (length pre)) RemoteRead"
    using P(2) by (simp add: replicate_append_same)
  moreover have "local_files (emit RemoteRead w1) lp = Some (bs @ chunk_data pre)"
    using P(3) by simp
  ultimately show ?thesis by blast
qed

lemma resume_try_complete:
  assumes "local_files w lp = Some bs" and "\<not> cancelled p"
      and "opens_ok (resume_script env)" and "close_error (resume_script env) = None"
      and "plain_chunks (reads (resume_script env))"
  shows "\<exists>w' p'. resume_try env lp rs w p
             = (if length (bs @ chunk_data (reads (resume_script env))) = rs
                then Inr lp else Inl TE_ResumeVerificationFailed, w', p')
           \<and> log w' = log w @ SftpSession
                         # replicate (Suc (length (reads (resume_script env)))) RemoteRead
           \<and> local_files w' lp = Some (bs @ chunk_data (reads (resume_script env)))"
proof -
  let ?w0 = "emit SftpSession w"
  let ?pre = "reads (resume_script env)"
  have f0: "local_files ?w0 lp = Some bs" using assms(1) by simp
  from resume_loop_plain [OF assms(5) assms(2) f0] obtain w1 p1 where P:
    "\<forall>tail. resume_loop lp (?pre @ tail) ?w0 p = resume_loop lp tail w1 p1"
    "log w1 = log ?w0 @ replicate (length ?pre) RemoteRead"
    "local_files w1 lp = Some (bs @ chunk_data ?pre)"
    by blast
  have "resume_loop lp (?pre @ []) ?w0 p = resume_loop lp [] w1 p1"
    using P(1) by blast
  then have loop: "resume_loop lp ?pre ?w0 p = (None, emit RemoteRead w1, p1)"
    by simp
  have "resume_try env lp rs w p
             = (if length (bs @ chunk_data ?pre) = rs
                then Inr lp else Inl TE_ResumeVerificationFailed, emit RemoteRead w1, p1)"
    using assms(3) assms(4) loop P(3)
    by (simp add: resume_try_def opens_ok_def Let_def verify_download_def)
  moreover have "log (emit RemoteRead w1)
                   = log w @ SftpSession # replicate (Suc (length ?pre)) RemoteRead"
    using P(2) by (simp add: replicate_append_same)
  moreover have "local_files (emit RemoteRead w1) lp = Some (bs @ chunk_data ?pre)"
    using P(3) by simp
  ultimately show ?thesis by blast
qed


text \<open>
  C2, as the code has it.  Every exception \<^verbatim>\<open>resume_download\<close> raises is a
  \<^verbatim>\<open>TransferError\<close>: chunk-level errors never reach the caller raw.  When the local file
  exists and is shorter than the remote one, there is exactly one attempt, in one SFTP
  session, and the local file keeps its old content as a prefix of the new one.  In
  particular, when a chunk read or a chunk write fails after some chunks were delivered,
  the call raises \<^verbatim>\<open>TransferError("Resume download failed: ...")\<close> carrying that error,
  and when all chunks are delivered but the file is not of the remote size, it raises
  \<^verbatim>\<open>TransferError("Resume download failed: Resume download verification failed")\<close>;
  in both cases the log shows the size query, one session and the reads made, and no
  retry, and the chunks delivered so far stay appended to the local file.
\<close>

theorem C2_resume_single_attempt:
  "(\<forall>e. fst (resume_download tm env backup_info local_path has_cb w) = Inl e
         \<longrightarrow> is_TransferError e)
   \<and> (\<forall>bs remote_size w1.
         local_files w local_path = Some bs
       \<and> get_remote_file_size env (filepath backup_info) w = (Some remote_size, w1)
       \<and> length bs < remote_size
       \<longrightarrow> (\<exists>r w' p k more.
              resume_download tm env backup_info local_path has_cb w = (r, w', Some p)
            \<and> log w' = log w @ [ExecStat (filepath backup_info), SftpSession]
                          @ replicate k RemoteRead
            \<and> local_files w' local_path = Some (bs @ more)
            \<and> (case r of
                  Inl e \<Rightarrow> \<exists>cause. e = TE_ResumeFailed cause
                | Inr p \<Rightarrow> p = local_path \<and> length (bs @ more) = remote_size))
         \<and> (\<forall>pre ev rest m.
               opens_ok (resume_script env)
             \<and> reads (resume_script env) = pre @ ev # rest
             \<and> plain_chunks pre \<and> io_failure ev = Some m
             \<longrightarrow> (\<exists>w' p.
                    resume_download tm env backup_info local_path has_cb w
                      = (Inl (TE_ResumeFailed (EnvError m)), w', Some p)
                  \<and> log w' = log w @ [ExecStat (filepath backup_info), SftpSession]
                                @ replicate (Suc (length pre)) RemoteRead
                  \<and> local_files w' local_path = Some (bs @ chunk_data pre)))
         \<and> (opens_ok (resume_script env) \<and> close_error (resume_script env) = None
             \<and> plain_chunks (reads (resume_script env))
             \<and> length (bs @ chunk_data (reads (resume_script env))) \<noteq> remote_size
             \<longrightarrow> (\<exists>w' p.
                    resume_download tm env backup_info local_path has_cb w
                      = (Inl (TE_ResumeFailed TE_ResumeVerificationFailed), w', Some p)
                  \<and> log w' = log w @ [ExecStat (filepath backup_info), SftpSession]
                                @ replicate (Suc (length (reads (resume_script env))))
                                    RemoteRead
                  \<and> local_files w' local_path
                      = Some (bs @ chunk_data (reads (resume_script env))))))"
proof (intro conjI allI impI)
  fix e
  assume a: "fst (resume_download tm env backup_info local_path has_cb w) = Inl e"
  show "is_TransferError e"
  proof (cases "local_files w local_path")
    case None
    then show ?thesis
      using a download_backup_error by (simp add: resume_download_def)
  next
    case (Some bs)
    then show ?thesis
      using a
      by (auto simp: resume_download_def Let_def split: prod.splits option.splits
            if_splits sum.splits)
  qed
next
  fix bs remote_size w1
  assume h: "local_files w local_path = Some bs
       \<and> get_remote_file_size env (filepath backup_info) w = (Some remote_size, w1)
       \<and> length bs < remote_size"
  have w1: "w1 = emit (ExecStat (filepath backup_info)) w"
    using h get_remote_file_size_world by blast
  have f1: "local_files w1 local_path = Some bs" using h w1 by simp
  let ?p = "(new_progress (int remote_size) has_cb (clock w1))\<lparr>transferred := int (length bs)\<rparr>"
  from resume_try_effects [OF f1, of env remote_size ?p] obtain r w' p' k more where R:
    "resume_try env local_path remote_size w1 ?p = (r, w', p')"
    "log w' = log w1 @ SftpSession # replicate k RemoteRead"
    "local_files w' local_path = Some (bs @ more)"
    "\<forall>path. r = Inr path \<longrightarrow> path = local_path \<and> length (bs @ more) = remote_size"
    by blast
  have lg: "log w' = log w @ [ExecStat (filepath backup_info), SftpSession]
                          @ replicate k RemoteRead"
    using R(2) w1 by simp
  show "\<exists>r w' p k more.
              resume_download tm env backup_info local_path has_cb w = (r, w', Some p)
            \<and> log w' = log w @ [ExecStat (filepath backup_info), SftpSession]
                          @ replicate k RemoteRead
            \<and> local_files w' local_path = Some (bs @ more)
            \<and> (case r of
                  Inl e \<Rightarrow> \<exists>cause. e = TE_ResumeFailed cause
                | Inr p \<Rightarrow> p = local_path \<and> length (bs @ more) = remote_size)"
  proof (cases r)
    case (Inl x)
    have "resume_download tm env backup_info local_path has_cb w
            = (Inl (TE_ResumeFailed x), w', Some p')"
      using h R(1) Inl by (simp add: resume_download_def Let_def)
    then show ?thesis using lg R(3) by force
  next
    case (Inr path)
    have "resume_download tm env backup_info local_path has_cb w = (Inr path, w', Some p')"
      using h R(1) Inr by (simp add: resume_download_def Let_def)
    moreover have "path = local_path \<and> length (bs @ more) = remote_size"
      using R(4) Inr by simp
    ultimately show ?thesis using lg R(3) by force
  qed
next
  fix bs remote_size w1 pre ev rest m
  assume h: "local_files w local_path = Some bs
       \<and> get_remote_file_size env (filepath backup_info) w = (Some remote_size, w1)
       \<and> length bs < remote_size"
  assume f: "opens_ok (resume_script env)
             \<and> reads (resume_script env) = pre @ ev # rest
             \<and> plain_chunks pre \<and> io_failure ev = Some m"
  have w1: "w1 = emit (ExecStat (filepath backup_info)) w"
    using h get_remote_file_size_world by blast
  have f1: "local_files w1 local_path = Some bs" using h w1 by simp
  let ?p = "(new_progress (int remote_size) has_cb (clock w1))\<lparr>transferred := int (length bs)\<rparr>"
  have nc: "\<not> cancelled ?p" by (simp add: new_progress_def)
  from f have f': "opens_ok (resume_script env)" "reads (resume_script env) = pre @ ev # rest"
    "plain_chunks pre" "io_failure ev = Some m" by simp_all
  from resume_try_io_failure [OF f1 nc f', of remote_size] obtain w' p' where R:
    "resume_try env local_path remote_size w1 ?p = (Inl (EnvError m), w', p')"
    "log w' = log w1 @ SftpSession # replicate (Suc (length pre)) RemoteRead"
    "local_files w' local_path = Some (bs @ chunk_data pre)"
    by blast
  have "resume_download tm env backup_info local_path has_cb w
          = (Inl (TE_ResumeFailed (EnvError m)), w', Some p')"
    using h R(1) by (simp add: resume_download_def Let_def)
  moreover have "log w' = log w @ [ExecStat (filepath backup_info), SftpSession]
                                @ replicate (Suc (length pre)) RemoteRead"
    using R(2) w1 by simp
  ultimately show "\<exists>w' p.
                    resume_download tm env backup_info local_path has_cb w
                      = (Inl (TE_ResumeFailed (EnvError m)), w', Some p)
                  \<and> log w' = log w @ [ExecStat (filepath backup_info), SftpSession]
                                @ replicate (Suc (length pre)) RemoteRead
                  \<and> local_files w' local_path = Some (bs @ chunk_data pre)"
    using R(3) by blast
next
  fix bs remote_size w1
  assume h: "local_files w local_path = Some bs
       \<and> get_remote_file_size env (filepath backup_info) w = (Some remote_size, w1)
       \<and> length bs < remote_size"
  assume f: "opens_ok (resume_script env) \<and> close_error (resume_script env) = None
             \<and> plain_chunks (reads (resume_script env))
             \<and> length (bs @ chunk_data (reads (resume_script env))) \<noteq> remote_size"
  let ?pre = "reads (resume_script env)"
  have w1: "w1 = emit (ExecStat (filepath backup_info)) w"
    using h get_remote_file_size_world by blast
  have f1: "local_files w1 local_path = Some bs" using h w1 by simp
  let ?p = "(new_progress (int remote_size) has_cb (clock w1))\<lparr>transferred := int (length bs)\<rparr>"
  have nc: "\<not> cancelled ?p" by (simp add: new_progress_def)
  from f have f': "opens_ok (resume_script env)" "close_error (resume_script env) = None"
    "plain_chunks ?pre" by simp_all
  from resume_try_complete [OF f1 nc f', of remote_size] obtain w' p' where R:
    "resume_try env local_path remote_size w1 ?p
       = (if length (bs @ chunk_data ?pre) = remote_size
          then Inr local_path else Inl TE_ResumeVerificationFailed, w', p')"
    "log w' = log w1 @ SftpSession # replicate (Suc (length ?pre)) RemoteRead"
    "local_files w' local_path = Some (bs @ chunk_data ?pre)"
    by blast
  have "resume_try env local_path remote_size w1 ?p = (Inl TE_ResumeVerificationFailed, w', p')"
    using R(1) f by simp
  then have "resume_download tm env backup_info local_path has_cb w
          = (Inl (TE_ResumeFailed TE_ResumeVerificationFailed), w', Some p')"
    using h by (simp add: resume_download_def Let_def)
  moreover have "log w' = log w @ [ExecStat (filepath backup_info), SftpSession]
                                @ replicate (Suc (length ?pre)) RemoteRead"
    using R(2) w1 by simp
  ultimately show "\<exists>w' p.
                    resume_download tm env backup_info local_path has_cb w
                      = (Inl (TE_ResumeFailed TE_ResumeVerificationFailed), w', Some p)
                  \<and> log w' = log w @ [ExecStat (filepath backup_info), SftpSession]
                                @ replicate (Suc (length ?pre)) RemoteRead
                  \<and> local_files w' local_path = Some (bs @ chunk_data ?pre)"
    using R(3) by blast
qed

theorem C2_resume_single_attempt_witness:
  "fst (resume_download (new_manager ''/l'') (flaky_env ''6'') (rec1 ''f.tar'' 5 2)
          ''/l/f.tar'' True (world_with ''/l/f.tar'' ''ab''))
     = Inl (TE_ResumeFailed (EnvError ''timeout''))
   \<and> is_TransferError (TE_ResumeFailed (EnvError ''timeout''))
   \<and> local_files (fst (snd (resume_download (new_manager ''/l'') (flaky_env ''6'')
          (rec1 ''f.tar'' 5 2) ''/l/f.tar'' True (world_with ''/l/f.tar'' ''ab''))))
        ''/l/f.tar'' = Some ''abcd''
   \<and> fst (resume_download (new_manager ''/l'') (steady_env ''abcdef'') (rec1 ''f.tar'' 5 2)
          ''/l/f.tar'' True (world_with ''/l/f.tar'' ''ab''))
     = Inl (TE_ResumeFailed TE_ResumeVerificationFailed)"
proof -
  let ?w = "world_with ''/l/f.tar'' ''ab''"
  have f: "local_files ?w ''/l/f.tar'' = Some ''ab''" by (simp add: world_with_def)
  have s1: "get_remote_file_size (flaky_env ''6'') (filepath (rec1 ''f.tar'' 5 2)) ?w
              = (Some 6, emit (ExecStat ''/b/f.tar'') ?w)"
    by (simp add: get_remote_file_size_def flaky_env_def rec1_def strip_def isdigit_def
          is_digit_def is_space_def int_of_digits_def digit_value_def)
  have s2: "get_remote_file_size (steady_env ''abcdef'') (filepath (rec1 ''f.tar'' 5 2)) ?w
              = (Some 6, emit (ExecStat ''/b/f.tar'') ?w)"
    by (simp add: get_remote_file_size_def steady_env_def rec1_def strip_def isdigit_def
          is_digit_def is_space_def int_of_digits_def digit_value_def)
  have io: "opens_ok (resume_script (flaky_env ''6''))
             \<and> reads (resume_script (flaky_env ''6''))
                 = [Chunk ''cd'' Never] @ ReadFails ''timeout'' # []
             \<and> plain_chunks [Chunk ''cd'' Never]
             \<and> io_failure (ReadFails ''timeout'') = Some ''timeout''"
    by (simp add: opens_ok_def flaky_env_def)
  have vf: "opens_ok (resume_script (steady_env ''abcdef''))
             \<and> close_error (resume_script (steady_env ''abcdef'')) = None
             \<and> plain_chunks (reads (resume_script (steady_env ''abcdef'')))
             \<and> length (''ab'' @ chunk_data (reads (resume_script (steady_env ''abcdef''))))
                 \<noteq> 6"
    by (simp add: opens_ok_def steady_env_def)
  have len: "length ''ab'' < (6::nat)" by simp
  note T1 = C2_resume_single_attempt [of "new_manager ''/l''" "flaky_env ''6''" "rec1 ''f.tar'' 5 2"
                    "''/l/f.tar''" True ?w,
                 THEN conjunct2, rule_format, OF conjI [OF f conjI [OF s1 len]]]
  note T2 = C2_resume_single_attempt [of "new_manager ''/l''" "steady_env ''abcdef''" "rec1 ''f.tar'' 5 2"
                    "''/l/f.tar''" True ?w,
                 THEN conjunct2, rule_format, OF conjI [OF f conjI [OF s2 len]]]
  have a: "\<exists>w' p. resume_download (new_manager ''/l'') (flaky_env ''6'') (rec1 ''f.tar'' 5 2)
          ''/l/f.tar'' True ?w = (Inl (TE_ResumeFailed (EnvError ''timeout'')), w', Some p)
        \<and> local_files w' ''/l/f.tar'' = Some (''ab'' @ chunk_data [Chunk ''cd'' Never])"
    using T1 [THEN conjunct2, THEN conjunct1, rule_format, OF io] by blast
  have b: "\<exists>w' p. resume_download (new_manager ''/l'') (steady_env ''abcdef'')
          (rec1 ''f.tar'' 5 2) ''/l/f.tar'' True ?w
            = (Inl (TE_ResumeFailed TE_ResumeVerificationFailed), w', Some p)"
    using T2 [THEN conjunct2, THEN conjunct2, rule_format, OF vf] by blast
  show ?thesis using a b by auto
qed

text \<open>
  C2 as stated fails: with the default limit of three attempts, a failed chunk read ends
  the resume after a single attempt.
\<close>

theorem C2_resume_failure_not_retried:
  "fst (resume_download (new_manager ''/l'') (flaky_env ''6'') (rec1 ''f.tar'' 5 2)
          ''/l/f.tar'' True (world_with ''/l/f.tar'' ''ab''))
     = Inl (TE_ResumeFailed (EnvError ''timeout''))
   \<and> log (fst (snd (resume_download (new_manager ''/l'') (flaky_env ''6'')
          (rec1 ''f.tar'' 5 2) ''/l/f.tar'' True (world_with ''/l/f.tar'' ''ab''))))
     = [ExecStat ''/b/f.tar'', SftpSession, RemoteRead, RemoteRead]
   \<and> max_retries (new_manager ''/l'') = 3"
  by (simp add: transfer_eval)

end
